theory Spec2Isabelle
  imports Complex_Main
begin

section \<open>The Bloom filter of BloomFilter.py\<close>

text \<open>
  The class \<^verbatim>\<open>bloomfilter\<close> is embedded with its objects in an explicit store, since
  \<^verbatim>\<open>__call__\<close> mutates \<^verbatim>\<open>self\<close> in place while \<^verbatim>\<open>__add__\<close> works on a
  \<^verbatim>\<open>copy.deepcopy\<close> of it. Python integers are \<open>int\<close>. A Python float is the real
  number it stands for; the floating-point operations of \<^verbatim>\<open>__init__\<close> are parameters of
  the embedding, so that their rounding is not fixed here.
\<close>

subsection \<open>Exceptions\<close>

text \<open>
  The one exception class of the module is \<^verbatim>\<open>InputException(message)\<close>; the five
  messages it is raised with are enumerated. \<open>ZeroDivisionError\<close> and \<open>IndexError\<close>
  are what \<^verbatim>\<open>%\<close> and the indexing of a \<^verbatim>\<open>bitarray\<close> raise.
\<close>

datatype message =
    N_should_be_positive
  | Epsilon_range_should_be_0_1
  | Different_hash_functions_cannot_be_added
  | Different_size_cannot_be_added
  | Some_elements_have_already_been_in_this_bloom_filter

datatype error = InputException message | ZeroDivisionError | IndexError

subsection \<open>Objects and the store\<close>

text \<open>
  The attributes of a \<^verbatim>\<open>bloomfilter\<close> object, in the order \<^verbatim>\<open>__init__\<close> sets them:
  \<^verbatim>\<open>b\<close>, \<^verbatim>\<open>k\<close>, \<^verbatim>\<open>n\<close>, \<^verbatim>\<open>m\<close>, \<^verbatim>\<open>__bitarray\<close> and \<^verbatim>\<open>__size\<close>, here with the prefix
  \<open>bf_\<close>.
\<close>

record bloomfilter =
  bf_b :: real
  bf_k :: int
  bf_n :: real
  bf_m :: int
  bf_bitarray :: "bool list"
  bf_size :: int

text \<open>
  A reference is the position of an object in the store; the references a program holds
  are those of objects in the store. The \<^verbatim>\<open>bitarray\<close> of a filter
  is kept inside its record: the attribute is private, it is created by \<^verbatim>\<open>__init__\<close>
  or by \<^verbatim>\<open>deepcopy\<close> and only \<^verbatim>\<open>tolist()\<close> of it is handed out, so no two objects
  share one.
\<close>

type_synonym ref = nat
type_synonym heap = "bloomfilter list"

text \<open>A computation on the store returns a value or raises, and leaves a store.\<close>

type_synonym 'r comp = "heap \<Rightarrow> (error + 'r) \<times> heap"

text \<open>
  \<open>h item seed\<close> stands for \<^verbatim>\<open>mmh3.hash(str(item), seed=seed)\<close>, a function of the
  third-party package \<^verbatim>\<open>mmh3\<close>: a signed integer, of which nothing is assumed.
\<close>

type_synonym 'a hasher = "'a \<Rightarrow> int \<Rightarrow> int"

text \<open>The right operand of \<^verbatim>\<open>+\<close>: \<^verbatim>\<open>isinstance(other, bloomfilter)\<close> or anything else.\<close>

datatype 'a operand = Filter ref | Item 'a

subsection \<open>Integers and the bit array\<close>

definition py_mod :: "int \<Rightarrow> int \<Rightarrow> error + int" where
  "py_mod a d = (if d = 0 then Inl ZeroDivisionError else Inr (a mod d))"

definition py_truediv :: "int \<Rightarrow> int \<Rightarrow> error + real" where
  "py_truediv a d = (if d = 0 then Inl ZeroDivisionError else Inr (real_of_int a / real_of_int d))"

text \<open>\<^verbatim>\<open>range(j)\<close> for an integer \<open>j\<close>: empty when \<open>j \<le> 0\<close>.\<close>

definition range_py :: "int \<Rightarrow> int list" where
  "range_py j = [0..j - 1]"

text \<open>Indexing a sequence: a negative index counts from the end, anything else out of range raises.\<close>

definition normalize_index :: "bool list \<Rightarrow> int \<Rightarrow> error + nat" where
  "normalize_index bits i =
     (let len = int (length bits); j = (if i < 0 then len + i else i)
      in if 0 \<le> j \<and> j < len then Inr (nat j) else Inl IndexError)"

definition getitem :: "bool list \<Rightarrow> int \<Rightarrow> error + bool" where
  "getitem bits i = (case normalize_index bits i of Inl e \<Rightarrow> Inl e | Inr j \<Rightarrow> Inr (bits ! j))"

definition setitem :: "bool list \<Rightarrow> int \<Rightarrow> bool \<Rightarrow> error + bool list" where
  "setitem bits i v = (case normalize_index bits i of Inl e \<Rightarrow> Inl e | Inr j \<Rightarrow> Inr (bits[j := v]))"

text \<open>\<^verbatim>\<open>bitarray.any()\<close>\<close>

definition any :: "bool list \<Rightarrow> bool" where
  "any bits = list_ex (\<lambda>v. v) bits"

text \<open>\<^verbatim>\<open>copy.deepcopy(self)\<close>: a new object with the same attribute values.\<close>

definition deepcopy :: "ref \<Rightarrow> heap \<Rightarrow> ref \<times> heap" where
  "deepcopy self s = (length s, s @ [s ! self])"

subsection \<open>Floating-point arithmetic\<close>

text \<open>
  The operations on floats that \<^verbatim>\<open>__init__\<close> uses, each with the rounding of the
  platform: \<^verbatim>\<open>math.log(x)\<close>, \<^verbatim>\<open>x * y\<close>, \<^verbatim>\<open>x / y\<close> and \<^verbatim>\<open>x ** 2\<close>. The unary minus
  and \<^verbatim>\<open>math.ceil\<close> are exact on floats.
\<close>

record arith =
  fl_log :: "real \<Rightarrow> real"
  fl_mul :: "real \<Rightarrow> real \<Rightarrow> real"
  fl_div :: "real \<Rightarrow> real \<Rightarrow> real"
  fl_pow2 :: "real \<Rightarrow> real"

text \<open>The arithmetic that does not round.\<close>

definition exact_arith :: arith where
  "exact_arith = \<lparr>fl_log = ln, fl_mul = (\<lambda>x y. x * y), fl_div = (\<lambda>x y. x / y),
                   fl_pow2 = (\<lambda>x. x ^ 2)\<rparr>"

subsection \<open>The loops\<close>

text \<open>
  The statement
  \<^verbatim>\<open>self.__bitarray[mmh3.hash(str(sample), seed=seed) % self.m] = 1\<close>
  on the object at \<open>self\<close>.
\<close>

definition set_hashed_bit :: "'a hasher \<Rightarrow> ref \<Rightarrow> 'a \<Rightarrow> int \<Rightarrow> unit comp" where
  "set_hashed_bit h self sample seed s =
     (let f = s ! self in
      case py_mod (h sample seed) (bf_m f) of
        Inl e \<Rightarrow> (Inl e, s)
      | Inr i \<Rightarrow>
          (case setitem (bf_bitarray f) i True of
             Inl e \<Rightarrow> (Inl e, s)
           | Inr bits \<Rightarrow> (Inr (), s[self := f\<lparr>bf_bitarray := bits\<rparr>])))"

text \<open>\<^verbatim>\<open>for seed in range(self.k): ...\<close>, over the seeds still to come.\<close>

fun for_seed :: "'a hasher \<Rightarrow> ref \<Rightarrow> 'a \<Rightarrow> int list \<Rightarrow> unit comp" where
  "for_seed h self sample [] s = (Inr (), s)"
| "for_seed h self sample (seed # seeds) s =
     (case set_hashed_bit h self sample seed s of
        (Inl e, s') \<Rightarrow> (Inl e, s')
      | (Inr _, s') \<Rightarrow> for_seed h self sample seeds s')"

text \<open>\<^verbatim>\<open>for sample in samples: for seed in range(self.k): ...\<close>\<close>

fun for_sample :: "'a hasher \<Rightarrow> ref \<Rightarrow> 'a list \<Rightarrow> unit comp" where
  "for_sample h self [] s = (Inr (), s)"
| "for_sample h self (sample # samples) s =
     (case for_seed h self sample (range_py (bf_k (s ! self))) s of
        (Inl e, s') \<Rightarrow> (Inl e, s')
      | (Inr _, s') \<Rightarrow> for_sample h self samples s')"

text \<open>The statement \<^verbatim>\<open>tmp.__bitarray[i] |= other.__bitarray[i]\<close>.\<close>

definition or_bit :: "ref \<Rightarrow> ref \<Rightarrow> int \<Rightarrow> unit comp" where
  "or_bit tmp other i s =
     (case getitem (bf_bitarray (s ! tmp)) i of
        Inl e \<Rightarrow> (Inl e, s)
      | Inr v \<Rightarrow>
          (case getitem (bf_bitarray (s ! other)) i of
             Inl e \<Rightarrow> (Inl e, s)
           | Inr w \<Rightarrow>
               (case setitem (bf_bitarray (s ! tmp)) i (v \<or> w) of
                  Inl e \<Rightarrow> (Inl e, s)
                | Inr bits \<Rightarrow> (Inr (), s[tmp := (s ! tmp)\<lparr>bf_bitarray := bits\<rparr>]))))"

text \<open>\<^verbatim>\<open>for i in range(tmp.m): ...\<close>\<close>

fun for_i :: "ref \<Rightarrow> ref \<Rightarrow> int list \<Rightarrow> unit comp" where
  "for_i tmp other [] s = (Inr (), s)"
| "for_i tmp other (i # is) s =
     (case or_bit tmp other i s of
        (Inl e, s') \<Rightarrow> (Inl e, s')
      | (Inr _, s') \<Rightarrow> for_i tmp other is s')"

subsection \<open>The methods\<close>

text \<open>
  \<^verbatim>\<open>bloomfilter(n, samples, epsilon, k)\<close>, that is \<^verbatim>\<open>__init__\<close>: the checks, the derived
  attributes, the new object with its all-zero bit array, then the loop over the samples;
  the value is the reference to the new object. \<^verbatim>\<open>samples=None\<close> is the empty list.
  The arithmetic \<open>fl\<close> is that of the floats.
\<close>

definition init_with :: "arith \<Rightarrow> 'a hasher \<Rightarrow> real \<Rightarrow> 'a list \<Rightarrow> real \<Rightarrow> int \<Rightarrow> ref comp" where
  "init_with fl h n samples epsilon k s =
     (if n \<le> 0 then (Inl (InputException N_should_be_positive), s)
      else if epsilon \<le> 0 \<or> epsilon \<ge> 1 then (Inl (InputException Epsilon_range_should_be_0_1), s)
      else
        let b = fl_div fl (- fl_log fl epsilon) (fl_pow2 fl (fl_log fl 2));
            k' = (if k = 0 then \<lceil>fl_mul fl b (fl_log fl 2)\<rceil> else k);
            m = \<lceil>fl_mul fl n b\<rceil>;
            self = length s;
            s1 = s @ [\<lparr>bf_b = b, bf_k = k', bf_n = n, bf_m = m,
                       bf_bitarray = replicate (nat m) False,
                       bf_size = int (length samples)\<rparr>]
        in case for_sample h self samples s1 of
             (Inl e, s2) \<Rightarrow> (Inl e, s2)
           | (Inr _, s2) \<Rightarrow> (Inr self, s2))"

text \<open>
  The constructor read without rounding. The properties of the filters that do not turn
  on the last digits of \<open>b\<close> are stated for it.
\<close>

definition init :: "'a hasher \<Rightarrow> real \<Rightarrow> 'a list \<Rightarrow> real \<Rightarrow> int \<Rightarrow> ref comp" where
  "init = init_with exact_arith"

text \<open>\<^verbatim>\<open>self + other\<close>, that is \<^verbatim>\<open>__add__\<close>: a merge when \<open>other\<close> is a filter, else an insertion.\<close>

definition add :: "'a hasher \<Rightarrow> ref \<Rightarrow> 'a operand \<Rightarrow> ref comp" where
  "add h self other s =
     (case other of
        Filter other \<Rightarrow>
          if bf_k (s ! other) \<noteq> bf_k (s ! self)
          then (Inl (InputException Different_hash_functions_cannot_be_added), s)
          else if bf_m (s ! other) \<noteq> bf_m (s ! self)
          then (Inl (InputException Different_size_cannot_be_added), s)
          else
            let (tmp, s1) = deepcopy self s;
                s2 = s1[tmp := (s1 ! tmp)\<lparr>bf_size := bf_size (s1 ! tmp) + bf_size (s1 ! other)\<rparr>]
            in (case for_i tmp other (range_py (bf_m (s2 ! tmp))) s2 of
                  (Inl e, s3) \<Rightarrow> (Inl e, s3)
                | (Inr _, s3) \<Rightarrow> (Inr tmp, s3))
      | Item x \<Rightarrow>
          let (tmp, s1) = deepcopy self s;
              s2 = s1[tmp := (s1 ! tmp)\<lparr>bf_size := bf_size (s1 ! tmp) + 1\<rparr>]
          in (case for_seed h tmp x (range_py (bf_k (s2 ! tmp))) s2 of
                (Inl e, s3) \<Rightarrow> (Inl e, s3)
              | (Inr _, s3) \<Rightarrow> (Inr tmp, s3)))"

text \<open>\<^verbatim>\<open>other + self\<close>, that is \<^verbatim>\<open>__radd__\<close>\<close>

definition radd :: "'a hasher \<Rightarrow> ref \<Rightarrow> 'a operand \<Rightarrow> ref comp" where
  "radd h self other = add h self other"

text \<open>\<^verbatim>\<open>self(samples)\<close>, that is \<^verbatim>\<open>__call__\<close>; \<^verbatim>\<open>samples=None\<close> is the empty list.\<close>

definition call :: "'a hasher \<Rightarrow> ref \<Rightarrow> 'a list \<Rightarrow> unit comp" where
  "call h self samples s =
     (if any (bf_bitarray (s ! self))
      then (Inl (InputException Some_elements_have_already_been_in_this_bloom_filter), s)
      else
        let s1 = s[self := (s ! self)\<lparr>bf_size := bf_size (s ! self) + int (length samples)\<rparr>]
        in for_sample h self samples s1)"

text \<open>\<^verbatim>\<open>item in self\<close>, that is \<^verbatim>\<open>__contains__\<close>: the loop returns at the first seed whose bit is 0.\<close>

fun contains_seeds :: "'a hasher \<Rightarrow> bloomfilter \<Rightarrow> 'a \<Rightarrow> int list \<Rightarrow> error + bool" where
  "contains_seeds h f item [] = Inr True"
| "contains_seeds h f item (seed # seeds) =
     (case py_mod (h item seed) (bf_m f) of
        Inl e \<Rightarrow> Inl e
      | Inr i \<Rightarrow>
          (case getitem (bf_bitarray f) i of
             Inl e \<Rightarrow> Inl e
           | Inr v \<Rightarrow> if v = False then Inr False else contains_seeds h f item seeds))"

definition contains :: "'a hasher \<Rightarrow> ref \<Rightarrow> 'a \<Rightarrow> heap \<Rightarrow> error + bool" where
  "contains h self item s = contains_seeds h (s ! self) item (range_py (bf_k (s ! self)))"

text \<open>\<^verbatim>\<open>len(self)\<close>, that is \<^verbatim>\<open>__len__\<close>\<close>

definition len :: "ref \<Rightarrow> heap \<Rightarrow> int" where
  "len self s = bf_size (s ! self)"

text \<open>
  \<^verbatim>\<open>self.actual_epsilon\<close>: the conditional expression evaluates the division only
  when the size is not 0.
\<close>

definition actual_epsilon :: "ref \<Rightarrow> heap \<Rightarrow> error + real" where
  "actual_epsilon self s =
     (if bf_size (s ! self) \<noteq> 0
      then (case py_truediv (bf_m (s ! self)) (bf_size (s ! self)) of
              Inl e \<Rightarrow> Inl e
            | Inr q \<Rightarrow> Inr ((1 / 2) powr (q * ln 2)))
      else Inr 0)"

text \<open>\<^verbatim>\<open>self.show()\<close>\<close>

definition "show" :: "ref \<Rightarrow> heap \<Rightarrow> bool list" where
  "show self s = bf_bitarray (s ! self)"

section \<open>Specification-level notions\<close>

text \<open>
  The definitions of this section are not code of the module: they are the vocabulary of
  the properties, and the closed forms that the loops and methods are proved to compute.
\<close>

subsection \<open>The derived parameters\<close>

text \<open>The three formulas of \<^verbatim>\<open>__init__\<close>, by name, in a given arithmetic.\<close>

definition derive_b :: "arith \<Rightarrow> real \<Rightarrow> real" where
  "derive_b fl epsilon = fl_div fl (- fl_log fl epsilon) (fl_pow2 fl (fl_log fl 2))"

definition derive_k :: "arith \<Rightarrow> real \<Rightarrow> int \<Rightarrow> int" where
  "derive_k fl epsilon k = (if k = 0 then \<lceil>fl_mul fl (derive_b fl epsilon) (fl_log fl 2)\<rceil> else k)"

definition derive_m :: "arith \<Rightarrow> real \<Rightarrow> real \<Rightarrow> int" where
  "derive_m fl n epsilon = \<lceil>fl_mul fl n (derive_b fl epsilon)\<rceil>"

text \<open>
  An arithmetic is accurate to \<open>d\<close> when each of its operations has a relative error of at
  most \<open>d\<close>, for results between a thousandth and a million in magnitude, where doubles
  neither underflow nor overflow. The operations of doubles, rounded to nearest, and a
  logarithm correct to one unit in the last place are accurate to \<open>2\<^sup>-\<^sup>5\<^sup>2\<close>.
\<close>

definition in_range :: "real \<Rightarrow> bool" where
  "in_range r \<longleftrightarrow> 1 / 1000 \<le> \<bar>r\<bar> \<and> \<bar>r\<bar> \<le> 1000000"

definition accurate :: "arith \<Rightarrow> real \<Rightarrow> bool" where
  "accurate fl d \<longleftrightarrow> 0 \<le> d
     \<and> (\<forall>x. 0 < x \<and> in_range (ln x) \<longrightarrow> \<bar>fl_log fl x - ln x\<bar> \<le> d * \<bar>ln x\<bar>)
     \<and> (\<forall>x y. in_range (x * y) \<longrightarrow> \<bar>fl_mul fl x y - x * y\<bar> \<le> d * \<bar>x * y\<bar>)
     \<and> (\<forall>x y. in_range (x / y) \<longrightarrow> \<bar>fl_div fl x y - x / y\<bar> \<le> d * \<bar>x / y\<bar>)
     \<and> (\<forall>x. in_range (x ^ 2) \<longrightarrow> \<bar>fl_pow2 fl x - x ^ 2\<bar> \<le> d * \<bar>x ^ 2\<bar>)"

text \<open>The arguments that pass the two checks of \<^verbatim>\<open>__init__\<close>.\<close>

definition valid :: "real \<Rightarrow> real \<Rightarrow> bool" where
  "valid n epsilon \<longleftrightarrow> 0 < n \<and> 0 < epsilon \<and> epsilon < 1"

subsection \<open>Well-formed filters\<close>

text \<open>
  The bit length is positive and is the length of the bit array. Every object that the
  methods create or change is of this form (\<open>reach_heap_wf\<close> below).
\<close>

definition wf :: "bloomfilter \<Rightarrow> bool" where
  "wf f \<longleftrightarrow> 0 < bf_m f \<and> int (length (bf_bitarray f)) = bf_m f"

definition heap_wf :: "heap \<Rightarrow> bool" where
  "heap_wf s \<longleftrightarrow> list_all wf s"

text \<open>Two stores with the same objects up to their bit arrays and sizes.\<close>

definition same_params :: "heap \<Rightarrow> heap \<Rightarrow> bool" where
  "same_params s s' \<longleftrightarrow> length s' = length s
     \<and> (\<forall>r. bf_b (s' ! r) = bf_b (s ! r) \<and> bf_k (s' ! r) = bf_k (s ! r)
            \<and> bf_m (s' ! r) = bf_m (s ! r))"

subsection \<open>Positions and bits\<close>

text \<open>The \<open>k\<close> positions of an item in a filter, and those of a list of items.\<close>

definition positions :: "'a hasher \<Rightarrow> bloomfilter \<Rightarrow> 'a \<Rightarrow> nat list" where
  "positions h f x = map (\<lambda>seed. nat (h x seed mod bf_m f)) (range_py (bf_k f))"

definition all_positions :: "'a hasher \<Rightarrow> bloomfilter \<Rightarrow> 'a list \<Rightarrow> nat list" where
  "all_positions h f xs = concat (map (positions h f) xs)"

text \<open>Setting the bits at a list of positions; OR-ing another array in at a list of positions.\<close>

definition set_all :: "nat list \<Rightarrow> bool list \<Rightarrow> bool list" where
  "set_all js bits = fold (\<lambda>j b. b[j := True]) js bits"

definition or_all :: "nat list \<Rightarrow> bool list \<Rightarrow> bool list \<Rightarrow> bool list" where
  "or_all js other bits = fold (\<lambda>j b. b[j := (b ! j \<or> other ! j)]) js bits"

text \<open>All positions of an item are set: what \<^verbatim>\<open>__contains__\<close> tests.\<close>

definition holds :: "'a hasher \<Rightarrow> bloomfilter \<Rightarrow> 'a \<Rightarrow> bool" where
  "holds h f x \<longleftrightarrow> list_all (\<lambda>j. bf_bitarray f ! j) (positions h f x)"

subsection \<open>The objects the methods leave behind\<close>

text \<open>
  The object of \<^verbatim>\<open>__init__\<close> before its loop, with size 0; a filter after one more
  item, after a merge with another filter, and after a list of items.
\<close>

definition blank :: "arith \<Rightarrow> real \<Rightarrow> real \<Rightarrow> int \<Rightarrow> bloomfilter" where
  "blank fl n epsilon k =
     \<lparr>bf_b = derive_b fl epsilon, bf_k = derive_k fl epsilon k, bf_n = n,
      bf_m = derive_m fl n epsilon,
      bf_bitarray = replicate (nat (derive_m fl n epsilon)) False, bf_size = 0\<rparr>"

definition inserted :: "'a hasher \<Rightarrow> bloomfilter \<Rightarrow> 'a \<Rightarrow> bloomfilter" where
  "inserted h f x = f\<lparr>bf_size := bf_size f + 1,
                      bf_bitarray := set_all (positions h f x) (bf_bitarray f)\<rparr>"

definition merged :: "bloomfilter \<Rightarrow> bloomfilter \<Rightarrow> bloomfilter" where
  "merged f g = f\<lparr>bf_size := bf_size f + bf_size g,
                  bf_bitarray := map2 (\<or>) (bf_bitarray f) (bf_bitarray g)\<rparr>"

definition populated :: "'a hasher \<Rightarrow> bloomfilter \<Rightarrow> 'a list \<Rightarrow> bloomfilter" where
  "populated h f xs = f\<lparr>bf_size := bf_size f + int (length xs),
                        bf_bitarray := set_all (all_positions h f xs) (bf_bitarray f)\<rparr>"

subsection \<open>Growth\<close>

text \<open>
  A bit array has grown: same length, and every bit that was set is set. A store has
  grown: every object is still there and its bit array has grown.
\<close>

definition bits_le :: "bool list \<Rightarrow> bool list \<Rightarrow> bool" where
  "bits_le old new \<longleftrightarrow> list_all2 (\<lambda>u v. u \<longrightarrow> v) old new"

definition heap_le :: "heap \<Rightarrow> heap \<Rightarrow> bool" where
  "heap_le s s' \<longleftrightarrow> length s \<le> length s' \<and>
     (\<forall>r < length s. bits_le (bf_bitarray (s ! r)) (bf_bitarray (s' ! r)))"

subsection \<open>The stores a program can build\<close>

text \<open>
  \<open>reach h s I\<close>: the store \<open>s\<close> comes from the empty store by calls of the constructor,
  of \<^verbatim>\<open>+\<close> with an item, of \<^verbatim>\<open>+\<close> with a filter and of \<^verbatim>\<open>__call__\<close> that returned, on
  objects of the store; \<open>I r\<close> records the items that went into the filter at \<open>r\<close>. A
  call that raises \<^verbatim>\<open>InputException\<close> leaves the store as it is, and on these stores no
  other exception is raised, so nothing else is to be recorded.
\<close>

inductive reach :: "'a hasher \<Rightarrow> heap \<Rightarrow> (ref \<Rightarrow> 'a set) \<Rightarrow> bool" for h :: "'a hasher" where
  reach_empty: "reach h [] (\<lambda>r. {})"
| reach_init:
    "reach h s I \<Longrightarrow> init h n xs epsilon k s = (Inr r, s') \<Longrightarrow> reach h s' (I(r := set xs))"
| reach_insert:
    "reach h s I \<Longrightarrow> self < length s \<Longrightarrow> add h self (Item x) s = (Inr r, s') \<Longrightarrow>
     reach h s' (I(r := insert x (I self)))"
| reach_merge:
    "reach h s I \<Longrightarrow> self < length s \<Longrightarrow> other < length s \<Longrightarrow>
     add h self (Filter other) s = (Inr r, s') \<Longrightarrow>
     reach h s' (I(r := I self \<union> I other))"
| reach_call:
    "reach h s I \<Longrightarrow> self < length s \<Longrightarrow> call h self xs s = (Inr u, s') \<Longrightarrow>
     reach h s' (I(self := I self \<union> set xs))"

subsection \<open>Examples\<close>

text \<open>
  A stand-in for the hash in the examples; it takes negative values, as the signed
  \<^verbatim>\<open>mmh3.hash\<close> does.
\<close>

definition toy_hash :: "string hasher" where
  "toy_hash x seed = int (length x) * (seed + 1) - 7"

text \<open>
  An arithmetic that rounds every result to the nearest multiple of \<open>2\<^sup>-\<^sup>4\<^sup>0\<close>, and the
  double nearest to 0.01.
\<close>

definition round_to :: "real \<Rightarrow> real" where
  "round_to x = real_of_int \<lfloor>x * 2 ^ 40 + 1 / 2\<rfloor> / 2 ^ 40"

definition rounding_arith :: arith where
  "rounding_arith = \<lparr>fl_log = (\<lambda>x. round_to (ln x)), fl_mul = (\<lambda>x y. round_to (x * y)),
                      fl_div = (\<lambda>x y. round_to (x / y)), fl_pow2 = (\<lambda>x. round_to (x ^ 2))\<rparr>"

definition double_hundredth :: real where
  "double_hundredth = 5764607523034235 / 576460752303423488"

text \<open>
  The store of the examples: an empty filter for capacity 1 and error rate 0.01 with two
  hash functions (its bit length is 10), a copy of it holding \<open>''ab''\<close>, and an empty
  filter with three hash functions.
\<close>

definition example_empty :: bloomfilter where
  "example_empty = blank exact_arith 1 (1 / 100) 2"

definition example_store :: heap where
  "example_store =
     [example_empty, inserted toy_hash example_empty ''ab'', blank exact_arith 1 (1 / 100) 3]"

section \<open>Auxiliary facts\<close>

subsection \<open>Exact arithmetic\<close>

lemma exact_arith_sel [simp]:
  "fl_log exact_arith = ln"
  "fl_mul exact_arith = (\<lambda>x y. x * y)"
  "fl_div exact_arith = (\<lambda>x y. x / y)"
  "fl_pow2 exact_arith = (\<lambda>x. x ^ 2)"
  by (simp_all add: exact_arith_def)

lemma derive_b_exact: "derive_b exact_arith epsilon = - ln epsilon / (ln 2) ^ 2"
  by (simp add: derive_b_def)

lemma derive_k_exact:
  "derive_k exact_arith epsilon k = (if k = 0 then \<lceil>derive_b exact_arith epsilon * ln 2\<rceil> else k)"
  by (simp add: derive_k_def)

lemma derive_m_exact: "derive_m exact_arith n epsilon = \<lceil>n * derive_b exact_arith epsilon\<rceil>"
  by (simp add: derive_m_def)

lemma init_unfold:
  "init h n samples epsilon k s =
     (if n \<le> 0 then (Inl (InputException N_should_be_positive), s)
      else if epsilon \<le> 0 \<or> epsilon \<ge> 1 then (Inl (InputException Epsilon_range_should_be_0_1), s)
      else
        let b = - ln epsilon / (ln 2) ^ 2;
            k' = (if k = 0 then \<lceil>b * ln 2\<rceil> else k);
            m = \<lceil>n * b\<rceil>;
            self = length s;
            s1 = s @ [\<lparr>bf_b = b, bf_k = k', bf_n = n, bf_m = m,
                       bf_bitarray = replicate (nat m) False,
                       bf_size = int (length samples)\<rparr>]
        in case for_sample h self samples s1 of
             (Inl e, s2) \<Rightarrow> (Inl e, s2)
           | (Inr _, s2) \<Rightarrow> (Inr self, s2))"
  by (simp add: init_def init_with_def Let_def)

subsection \<open>Bounds on the logarithms of the worked example\<close>

lemma exp_taylor_lower:
  fixes x :: real
  assumes "0 \<le> x"
  shows "(\<Sum>m<n. x ^ m / fact m) \<le> exp x"
proof -
  obtain t where "exp x = (\<Sum>m<n. x ^ m / fact m) + exp t / fact n * x ^ n"
    using Maclaurin_exp_le [of x n] by blast
  moreover have "0 \<le> exp t / fact n * x ^ n"
    using assms by simp
  ultimately show ?thesis by linarith
qed

lemma exp_taylor_upper:
  fixes x :: real
  assumes "0 \<le> x" and "x \<le> 1"
  shows "exp x \<le> (\<Sum>m<n. x ^ m / fact m) + 3 * x ^ n / fact n"
proof -
  obtain t where t: "\<bar>t\<bar> \<le> \<bar>x\<bar>"
    and e: "exp x = (\<Sum>m<n. x ^ m / fact m) + exp t / fact n * x ^ n"
    using Maclaurin_exp_le [of x n] by blast
  have "t \<le> 1" using t assms by linarith
  then have "exp t \<le> exp 1" by simp
  then have "exp t \<le> 3" using exp_le by linarith
  then have "exp t * (x ^ n / fact n) \<le> 3 * (x ^ n / fact n)"
    using assms(1) by (intro mult_right_mono) simp_all
  then show ?thesis using e by (simp add: field_simps)
qed

lemma ln_2_upper: "ln (2::real) < 173287 / 250000"
proof -
  have "(2::real) < (\<Sum>m<10. (173287 / 250000) ^ m / fact m)"
    by (simp add: eval_nat_numeral)
  also have "\<dots> \<le> exp (173287 / 250000)"
    by (rule exp_taylor_lower) simp
  finally have "exp (ln 2) < exp (173287 / 250000 :: real)" by simp
  then show ?thesis by (simp only: exp_less_cancel_iff)
qed

lemma ln_2_lower: "346573 / 500000 < ln (2::real)"
proof -
  have "exp (346573 / 500000 :: real) \<le> (\<Sum>m<10. (346573 / 500000) ^ m / fact m) + 3 * (346573 / 500000) ^ 10 / fact 10"
    by (rule exp_taylor_upper) simp_all
  also have "\<dots> < 2"
    by (simp add: eval_nat_numeral)
  finally have "exp (346573 / 500000 :: real) < exp (ln 2)" by simp
  then show ?thesis by (simp only: exp_less_cancel_iff)
qed

lemma ln_5_4_lower: "223143 / 1000000 < ln (5 / 4 :: real)"
proof -
  have "exp (223143 / 1000000 :: real) \<le> (\<Sum>m<8. (223143 / 1000000) ^ m / fact m) + 3 * (223143 / 1000000) ^ 8 / fact 8"
    by (rule exp_taylor_upper) simp_all
  also have "\<dots> < 5 / 4"
    by (simp add: eval_nat_numeral)
  finally have "exp (223143 / 1000000 :: real) < exp (ln (5 / 4))" by simp
  then show ?thesis by (simp only: exp_less_cancel_iff)
qed

lemma ln_5_4_upper: "ln (5 / 4 :: real) < 22315 / 100000"
proof -
  have "(5 / 4 ::real) < (\<Sum>m<6. (22315 / 100000) ^ m / fact m)"
    by (simp add: eval_nat_numeral)
  also have "\<dots> \<le> exp (22315 / 100000)"
    by (rule exp_taylor_lower) simp
  finally have "exp (ln (5 / 4)) < exp (22315 / 100000 :: real)" by simp
  then show ?thesis by (simp only: exp_less_cancel_iff)
qed

lemma ln_100: "ln (100::real) = 6 * ln 2 + 2 * ln (5 / 4)"
proof -
  have "(100::real) = 2 ^ 6 * (5 / 4) ^ 2" by (simp add: power2_eq_square)
  then have "ln (100::real) = ln (2 ^ 6 * (5 / 4) ^ 2)" by simp
  also have "\<dots> = ln ((2::real) ^ 6) + ln ((5 / 4 :: real) ^ 2)"
    by (rule ln_mult_pos) simp_all
  also have "\<dots> = 6 * ln 2 + 2 * ln (5 / 4 :: real)"
    by (simp only: ln_realpow of_nat_numeral)
  finally show ?thesis .
qed

lemma derive_b_example: "derive_b exact_arith (1 / 100) = ln 100 / (ln 2) ^ 2"
  by (simp add: derive_b_exact ln_div)

lemma ln_2_sq_upper: "(ln (2::real)) ^ 2 < (173287 / 250000) ^ 2"
  using ln_2_upper by (intro power_strict_mono) simp_all

lemma ln_2_sq_lower: "(346573 / 500000) ^ 2 < (ln (2::real)) ^ 2"
  using ln_2_lower by (intro power_strict_mono) simp_all

lemma derive_b_example_lower: "9585 / 1000 < derive_b exact_arith (1 / 100)"
proof -
  have "9585 / 1000 * (ln (2::real)) ^ 2 < 9585 / 1000 * (173287 / 250000) ^ 2"
    using ln_2_sq_upper by (intro mult_strict_left_mono) simp_all
  also have "\<dots> < 6 * (346573 / 500000) + 2 * (223143 / 1000000)"
    by (simp add: power2_eq_square)
  also have "\<dots> < ln (100::real)"
    unfolding ln_100 using ln_2_lower ln_5_4_lower by linarith
  finally have "9585 / 1000 * (ln (2::real)) ^ 2 < ln 100" .
  then have "9585 / 1000 < ln (100::real) / (ln 2) ^ 2"
    by (simp add: pos_less_divide_eq)
  then show ?thesis by (simp only: derive_b_example)
qed

lemma derive_b_example_upper: "derive_b exact_arith (1 / 100) < 9586 / 1000"
proof -
  have "ln (100::real) < 6 * (173287 / 250000) + 2 * (22315 / 100000)"
    unfolding ln_100 using ln_2_upper ln_5_4_upper by linarith
  also have "\<dots> < 9586 / 1000 * (346573 / 500000) ^ 2"
    by (simp add: power2_eq_square)
  also have "\<dots> < 9586 / 1000 * (ln (2::real)) ^ 2"
    using ln_2_sq_lower by (intro mult_strict_left_mono) simp_all
  finally have "ln (100::real) < 9586 / 1000 * (ln 2) ^ 2" .
  then have "ln (100::real) / (ln 2) ^ 2 < 9586 / 1000"
    by (simp add: pos_divide_less_eq)
  then show ?thesis by (simp only: derive_b_example)
qed

lemma derive_m_example: "derive_m exact_arith 1000 (1 / 100) = 9586"
proof -
  have "real_of_int 9586 - 1 < 1000 * derive_b exact_arith (1 / 100)"
    using derive_b_example_lower by simp
  moreover have "1000 * derive_b exact_arith (1 / 100) \<le> real_of_int 9586"
    using derive_b_example_upper by simp
  ultimately show ?thesis
    unfolding derive_m_exact by (rule ceiling_unique)
qed

lemma derive_k_example: "derive_k exact_arith (1 / 100) 0 = 7"
proof -
  have eq: "derive_b exact_arith (1 / 100) * ln 2 = ln 100 / ln 2"
    by (simp add: derive_b_example power2_eq_square)
  have pos: "0 < ln (2::real)" by simp
  have "6 * ln (2::real) < ln 100"
    unfolding ln_100 using ln_5_4_lower by linarith
  then have lo: "real_of_int 7 - 1 < ln 100 / ln (2::real)"
    using pos by (simp add: pos_less_divide_eq)
  have "ln (100::real) \<le> 7 * ln 2"
    unfolding ln_100 using ln_5_4_upper ln_2_lower by linarith
  then have hi: "ln 100 / ln (2::real) \<le> real_of_int 7"
    using pos by (simp add: pos_divide_le_eq)
  have "\<lceil>ln 100 / ln (2::real)\<rceil> = 7" using lo hi by (rule ceiling_unique)
  then show ?thesis by (simp add: derive_k_exact eq)
qed

subsection \<open>Setting and merging bits\<close>

lemma length_set_all [simp]: "length (set_all js bits) = length bits"
  unfolding set_all_def by (induction js arbitrary: bits) auto

lemma length_or_all [simp]: "length (or_all js other bits) = length bits"
  unfolding or_all_def by (induction js arbitrary: bits) auto

lemma set_all_Nil [simp]: "set_all [] bits = bits"
  by (simp add: set_all_def)

lemma set_all_Cons [simp]: "set_all (j # js) bits = set_all js (bits[j := True])"
  by (simp add: set_all_def)

lemma set_all_append [simp]: "set_all (js @ ks) bits = set_all ks (set_all js bits)"
  by (simp add: set_all_def)

lemma or_all_Nil [simp]: "or_all [] other bits = bits"
  by (simp add: or_all_def)

lemma or_all_Cons [simp]:
  "or_all (j # js) other bits = or_all js other (bits[j := (bits ! j \<or> other ! j)])"
  by (simp add: or_all_def)

lemma nth_set_all: "i < length bits \<Longrightarrow> set_all js bits ! i \<longleftrightarrow> bits ! i \<or> i \<in> set js"
proof (induction js arbitrary: bits)
  case Nil
  then show ?case by simp
next
  case (Cons j js)
  have "set_all js (bits[j := True]) ! i \<longleftrightarrow> bits[j := True] ! i \<or> i \<in> set js"
    using Cons.prems by (intro Cons.IH) simp
  then show ?case
    using Cons.prems by (cases "i = j") simp_all
qed

lemma nth_or_all:
  "i < length bits \<Longrightarrow> or_all js other bits ! i \<longleftrightarrow> bits ! i \<or> (i \<in> set js \<and> other ! i)"
proof (induction js arbitrary: bits)
  case Nil
  then show ?case by simp
next
  case (Cons j js)
  let ?b = "bits[j := (bits ! j \<or> other ! j)]"
  have "or_all js other ?b ! i \<longleftrightarrow> ?b ! i \<or> (i \<in> set js \<and> other ! i)"
    using Cons.prems by (intro Cons.IH) simp
  then show ?case
    using Cons.prems by (cases "i = j") auto
qed

subsection \<open>The loops on a well-formed filter\<close>

lemma mod_index:
  assumes "wf f"
  shows "0 \<le> a mod bf_m f" and "a mod bf_m f < int (length (bf_bitarray f))"
  using assms by (simp_all add: wf_def)

lemma normalize_index_mod:
  "wf f \<Longrightarrow> normalize_index (bf_bitarray f) (a mod bf_m f) = Inr (nat (a mod bf_m f))"
  using mod_index [of f a] by (simp add: normalize_index_def Let_def)

lemma set_hashed_bit_wf:
  assumes "wf (s ! self)"
  shows "set_hashed_bit h self x seed s =
    (Inr (), s[self := (s ! self)\<lparr>bf_bitarray := (bf_bitarray (s ! self))[nat (h x seed mod bf_m (s ! self)) := True]\<rparr>])"
proof -
  have "bf_m (s ! self) \<noteq> 0" using assms by (simp add: wf_def)
  then show ?thesis
    using normalize_index_mod [OF assms, of "h x seed"]
    by (simp add: set_hashed_bit_def Let_def py_mod_def setitem_def)
qed

lemma wf_update_bits:
  "wf f \<Longrightarrow> length bits = length (bf_bitarray f) \<Longrightarrow> wf (f\<lparr>bf_bitarray := bits\<rparr>)"
  by (simp add: wf_def)

lemma for_seed_wf:
  assumes "self < length s" and "wf (s ! self)"
  shows "for_seed h self x seeds s =
    (Inr (), s[self := (s ! self)\<lparr>bf_bitarray :=
       set_all (map (\<lambda>seed. nat (h x seed mod bf_m (s ! self))) seeds) (bf_bitarray (s ! self))\<rparr>])"
  using assms
proof (induction seeds arbitrary: s)
  case Nil
  then show ?case by simp
next
  case (Cons seed seeds)
  let ?f = "s ! self"
  let ?s' = "s[self := ?f\<lparr>bf_bitarray := (bf_bitarray ?f)[nat (h x seed mod bf_m ?f) := True]\<rparr>]"
  have step: "set_hashed_bit h self x seed s = (Inr (), ?s')"
    using Cons.prems(2) by (rule set_hashed_bit_wf)
  have len: "self < length ?s'" using Cons.prems(1) by simp
  have at: "?s' ! self = ?f\<lparr>bf_bitarray := (bf_bitarray ?f)[nat (h x seed mod bf_m ?f) := True]\<rparr>"
    using Cons.prems(1) by simp
  have wf': "wf (?s' ! self)"
    unfolding at using Cons.prems(2) by (simp add: wf_def)
  show ?case
    using Cons.IH [OF len wf'] step by (simp add: at)
qed

lemma for_seed_range:
  assumes "self < length s" and "wf (s ! self)"
  shows "for_seed h self x (range_py (bf_k (s ! self))) s =
    (Inr (), s[self := (s ! self)\<lparr>bf_bitarray := set_all (positions h (s ! self) x) (bf_bitarray (s ! self))\<rparr>])"
  using for_seed_wf [OF assms] by (simp add: positions_def)

lemma positions_update_bits [simp]:
  "positions h (f\<lparr>bf_bitarray := bits\<rparr>) = positions h f"
  by (rule ext) (simp add: positions_def)

lemma for_sample_wf:
  assumes "self < length s" and "wf (s ! self)"
  shows "for_sample h self xs s =
    (Inr (), s[self := (s ! self)\<lparr>bf_bitarray := set_all (all_positions h (s ! self) xs) (bf_bitarray (s ! self))\<rparr>])"
  using assms
proof (induction xs arbitrary: s)
  case Nil
  then show ?case by (simp add: all_positions_def)
next
  case (Cons x xs)
  let ?f = "s ! self"
  let ?g = "?f\<lparr>bf_bitarray := set_all (positions h ?f x) (bf_bitarray ?f)\<rparr>"
  let ?s' = "s[self := ?g]"
  have step: "for_seed h self x (range_py (bf_k ?f)) s = (Inr (), ?s')"
    using Cons.prems by (rule for_seed_range)
  have len: "self < length ?s'" using Cons.prems(1) by simp
  have at: "?s' ! self = ?g" using Cons.prems(1) by simp
  have wf': "wf (?s' ! self)"
    unfolding at using Cons.prems(2) by (simp add: wf_def)
  show ?case
    using Cons.IH [OF len wf'] step by (simp add: at all_positions_def)
qed

lemma normalize_index_in_range:
  "0 \<le> i \<Longrightarrow> i < int (length bits) \<Longrightarrow> normalize_index bits i = Inr (nat i)"
  by (simp add: normalize_index_def Let_def)

lemma or_bit_in_range:
  assumes "0 \<le> i" and "i < int (length (bf_bitarray (s ! tmp)))"
    and "i < int (length (bf_bitarray (s ! other)))"
  shows "or_bit tmp other i s =
    (Inr (), s[tmp := (s ! tmp)\<lparr>bf_bitarray :=
       (bf_bitarray (s ! tmp))[nat i := (bf_bitarray (s ! tmp) ! nat i \<or> bf_bitarray (s ! other) ! nat i)]\<rparr>])"
  using assms by (simp add: or_bit_def getitem_def setitem_def normalize_index_in_range)

lemma for_i_in_range:
  assumes "tmp < length s" and "other \<noteq> tmp"
    and "\<forall>i \<in> set is. 0 \<le> i \<and> i < int (length (bf_bitarray (s ! tmp)))
           \<and> i < int (length (bf_bitarray (s ! other)))"
  shows "for_i tmp other is s =
    (Inr (), s[tmp := (s ! tmp)\<lparr>bf_bitarray :=
       or_all (map nat is) (bf_bitarray (s ! other)) (bf_bitarray (s ! tmp))\<rparr>])"
  using assms
proof (induction "is" arbitrary: s)
  case Nil
  then show ?case by simp
next
  case (Cons i "is")
  let ?t = "s ! tmp"
  let ?g = "?t\<lparr>bf_bitarray :=
       (bf_bitarray ?t)[nat i := (bf_bitarray ?t ! nat i \<or> bf_bitarray (s ! other) ! nat i)]\<rparr>"
  let ?s' = "s[tmp := ?g]"
  have step: "or_bit tmp other i s = (Inr (), ?s')"
    using Cons.prems(3) by (intro or_bit_in_range) simp_all
  have len: "tmp < length ?s'" using Cons.prems(1) by simp
  have at: "?s' ! tmp = ?g" using Cons.prems(1) by simp
  have oth: "?s' ! other = s ! other" using Cons.prems(2) by simp
  have rng: "\<forall>j \<in> set is. 0 \<le> j \<and> j < int (length (bf_bitarray (?s' ! tmp)))
           \<and> j < int (length (bf_bitarray (?s' ! other)))"
    unfolding at oth using Cons.prems(3) by simp
  show ?case
    using Cons.IH [OF len Cons.prems(2) rng] step by (simp add: at oth)
qed

lemma set_range_py: "set (range_py j) = {0..<j}"
  by (auto simp: range_py_def)

lemma or_all_range:
  assumes "length other = length bits" and "int (length bits) = m"
  shows "or_all (map nat (range_py m)) other bits = map2 (\<or>) bits other"
proof (rule nth_equalityI)
  show "length (or_all (map nat (range_py m)) other bits) = length (map2 (\<or>) bits other)"
    using assms by simp
next
  fix i assume "i < length (or_all (map nat (range_py m)) other bits)"
  then have i: "i < length bits" by simp
  then have "int i \<in> set (range_py m)"
    using assms(2) by (simp add: set_range_py)
  then have "nat (int i) \<in> nat ` set (range_py m)" by (rule imageI)
  then have mem: "i \<in> set (map nat (range_py m))" by simp
  show "or_all (map nat (range_py m)) other bits ! i = map2 (\<or>) bits other ! i"
    using i assms(1) mem by (simp add: nth_or_all)
qed

lemma heap_wf_nth: "heap_wf s \<Longrightarrow> r < length s \<Longrightarrow> wf (s ! r)"
  by (simp add: heap_wf_def list_all_length)

subsection \<open>The methods on well-formed filters\<close>

lemma add_Item_wf:
  assumes "self < length s" and "wf (s ! self)"
  shows "add h self (Item x) s = (Inr (length s), s @ [inserted h (s ! self) x])"
proof -
  let ?f = "s ! self"
  let ?t = "?f\<lparr>bf_size := bf_size ?f + 1\<rparr>"
  let ?s2 = "s @ [?t]"
  have s2: "(s @ [s ! self])[length s := ((s @ [s ! self]) ! length s)\<lparr>bf_size := bf_size ((s @ [s ! self]) ! length s) + 1\<rparr>] = ?s2"
    by simp
  have len: "length s < length ?s2" by simp
  have at: "?s2 ! length s = ?t" by simp
  have wft: "wf (?s2 ! length s)" unfolding at using assms(2) by (simp add: wf_def)
  have loop: "for_seed h (length s) x (range_py (bf_k (?s2 ! length s))) ?s2 =
    (Inr (), ?s2[length s := (?s2 ! length s)\<lparr>bf_bitarray := set_all (positions h (?s2 ! length s) x) (bf_bitarray (?s2 ! length s))\<rparr>])"
    using len wft by (rule for_seed_range)
  have pos: "positions h ?t x = positions h ?f x" by (simp add: positions_def)
  show ?thesis
    unfolding add_def deepcopy_def
    using loop by (simp add: s2 at pos inserted_def)
qed

lemma add_Filter_wf:
  assumes "self < length s" and "other < length s"
    and "wf (s ! self)" and "wf (s ! other)"
    and "bf_k (s ! other) = bf_k (s ! self)" and "bf_m (s ! other) = bf_m (s ! self)"
  shows "add h self (Filter other) s = (Inr (length s), s @ [merged (s ! self) (s ! other)])"
proof -
  let ?f = "s ! self"
  let ?g = "s ! other"
  let ?t = "?f\<lparr>bf_size := bf_size ?f + bf_size ?g\<rparr>"
  let ?s2 = "s @ [?t]"
  have oth1: "(s @ [?f]) ! other = ?g" using assms(2) by (simp add: nth_append)
  have s2: "(s @ [?f])[length s := ((s @ [?f]) ! length s)\<lparr>bf_size := bf_size ((s @ [?f]) ! length s) + bf_size ((s @ [?f]) ! other)\<rparr>] = ?s2"
    by (simp add: oth1)
  have len: "length s < length ?s2" by simp
  have ne: "other \<noteq> length s" using assms(2) by simp
  have at: "?s2 ! length s = ?t" by simp
  have oth: "?s2 ! other = ?g" using assms(2) by (simp add: nth_append)
  have lf: "int (length (bf_bitarray ?f)) = bf_m ?f" using assms(3) by (simp add: wf_def)
  have lg: "int (length (bf_bitarray ?g)) = bf_m ?f" using assms(4,6) by (simp add: wf_def)
  have rng: "\<forall>i \<in> set (range_py (bf_m (?s2 ! length s))).
      0 \<le> i \<and> i < int (length (bf_bitarray (?s2 ! length s)))
        \<and> i < int (length (bf_bitarray (?s2 ! other)))"
    unfolding at oth by (simp add: set_range_py lf lg)
  have loop: "for_i (length s) other (range_py (bf_m (?s2 ! length s))) ?s2 =
    (Inr (), ?s2[length s := (?s2 ! length s)\<lparr>bf_bitarray :=
       or_all (map nat (range_py (bf_m (?s2 ! length s)))) (bf_bitarray (?s2 ! other)) (bf_bitarray (?s2 ! length s))\<rparr>])"
    using len ne rng by (rule for_i_in_range)
  have ll: "length (bf_bitarray ?g) = length (bf_bitarray ?f)" using lf lg by simp
  have orr: "or_all (map nat (range_py (bf_m ?f))) (bf_bitarray ?g) (bf_bitarray ?f)
      = map2 (\<or>) (bf_bitarray ?f) (bf_bitarray ?g)"
    using ll lf by (rule or_all_range)
  show ?thesis
    unfolding add_def deepcopy_def
    using loop assms(5,6) by (simp add: oth1 at oth orr merged_def)
qed

lemma positions_update_size [simp]:
  "positions h (f\<lparr>bf_size := z\<rparr>) = positions h f"
  by (rule ext) (simp add: positions_def)

lemma call_wf:
  assumes "self < length s" and "wf (s ! self)" and "\<not> any (bf_bitarray (s ! self))"
  shows "call h self xs s = (Inr (), s[self := populated h (s ! self) xs])"
proof -
  let ?f = "s ! self"
  let ?t = "?f\<lparr>bf_size := bf_size ?f + int (length xs)\<rparr>"
  let ?s1 = "s[self := ?t]"
  have len: "self < length ?s1" using assms(1) by simp
  have at: "?s1 ! self = ?t" using assms(1) by simp
  have wft: "wf (?s1 ! self)" unfolding at using assms(2) by (simp add: wf_def)
  have loop: "for_sample h self xs ?s1 =
    (Inr (), ?s1[self := (?s1 ! self)\<lparr>bf_bitarray := set_all (all_positions h (?s1 ! self) xs) (bf_bitarray (?s1 ! self))\<rparr>])"
    using len wft by (rule for_sample_wf)
  have pos: "all_positions h ?t xs = all_positions h ?f xs"
    by (simp add: all_positions_def)
  show ?thesis
    unfolding call_def using loop assms(3) by (simp add: at pos populated_def)
qed

lemma call_populated:
  "any (bf_bitarray (s ! self)) \<Longrightarrow>
   call h self xs s = (Inl (InputException Some_elements_have_already_been_in_this_bloom_filter), s)"
  by (simp add: call_def)

lemma derive_b_pos:
  assumes "0 < epsilon" and "epsilon < 1"
  shows "0 < derive_b exact_arith epsilon"
proof -
  have "ln epsilon < 0" using assms by simp
  moreover have "0 < (ln 2 :: real) ^ 2" by simp
  ultimately have "ln epsilon / (ln 2) ^ 2 < 0" by (rule divide_neg_pos)
  then show ?thesis by (simp add: derive_b_exact)
qed

lemma derive_m_pos: "valid n epsilon \<Longrightarrow> 0 < derive_m exact_arith n epsilon"
  using derive_b_pos [of epsilon] by (simp add: valid_def derive_m_exact)

lemma wf_blank: "valid n epsilon \<Longrightarrow> wf (blank exact_arith n epsilon k)"
  using derive_m_pos [of n epsilon] by (simp add: wf_def blank_def)

lemma blank_sel [simp]:
  "bf_size (blank exact_arith n epsilon k) = 0"
  "bf_m (blank exact_arith n epsilon k) = derive_m exact_arith n epsilon"
  "bf_k (blank exact_arith n epsilon k) = derive_k exact_arith epsilon k"
  "bf_b (blank exact_arith n epsilon k) = derive_b exact_arith epsilon"
  "bf_n (blank exact_arith n epsilon k) = n"
  "bf_bitarray (blank exact_arith n epsilon k) = replicate (nat (derive_m exact_arith n epsilon)) False"
  by (simp_all add: blank_def)

lemma init_valid:
  assumes "valid n epsilon"
  shows "init h n xs epsilon k s = (Inr (length s), s @ [populated h (blank exact_arith n epsilon k) xs])"
proof -
  let ?f = "(blank exact_arith n epsilon k)\<lparr>bf_size := int (length xs)\<rparr>"
  let ?s1 = "s @ [?f]"
  have len: "length s < length ?s1" by simp
  have at: "?s1 ! length s = ?f" by simp
  have wff: "wf (?s1 ! length s)"
    unfolding at using wf_blank [OF assms, of k] by (simp add: wf_def)
  have loop: "for_sample h (length s) xs ?s1 =
    (Inr (), ?s1[length s := (?s1 ! length s)\<lparr>bf_bitarray := set_all (all_positions h (?s1 ! length s) xs) (bf_bitarray (?s1 ! length s))\<rparr>])"
    using len wff by (rule for_sample_wf)
  have pos: "all_positions h ?f xs = all_positions h (blank exact_arith n epsilon k) xs"
    by (simp add: all_positions_def)
  have f: "\<lparr>bf_b = - ln epsilon / (ln 2) ^ 2,
             bf_k = (if k = 0 then \<lceil>- ln epsilon / (ln 2) ^ 2 * ln 2\<rceil> else k),
             bf_n = n, bf_m = \<lceil>n * (- ln epsilon / (ln 2) ^ 2)\<rceil>,
             bf_bitarray = replicate (nat \<lceil>n * (- ln epsilon / (ln 2) ^ 2)\<rceil>) False,
             bf_size = int (length xs)\<rparr> = ?f"
    by (simp add: blank_def derive_b_exact derive_k_exact derive_m_exact)
  have nv: "\<not> n \<le> 0" "\<not> (epsilon \<le> 0 \<or> epsilon \<ge> 1)"
    using assms by (auto simp: valid_def)
  show ?thesis
    unfolding init_unfold Let_def if_not_P [OF nv(1)] if_not_P [OF nv(2)] f
    using loop by (simp add: at pos populated_def)
qed

lemma init_invalid_n:
  "n \<le> 0 \<Longrightarrow> init h n xs epsilon k s = (Inl (InputException N_should_be_positive), s)"
  by (simp add: init_unfold)

lemma init_invalid_epsilon:
  "0 < n \<Longrightarrow> epsilon \<le> 0 \<or> 1 \<le> epsilon \<Longrightarrow>
   init h n xs epsilon k s = (Inl (InputException Epsilon_range_should_be_0_1), s)"
  by (simp add: init_unfold)

lemma contains_seeds_wf:
  assumes "wf f"
  shows "contains_seeds h f x seeds =
    Inr (\<forall>seed \<in> set seeds. bf_bitarray f ! nat (h x seed mod bf_m f))"
proof (induction seeds)
  case Nil
  then show ?case by simp
next
  case (Cons seed seeds)
  have nz: "bf_m f \<noteq> 0" using assms by (simp add: wf_def)
  show ?case
    using Cons.IH nz normalize_index_mod [OF assms, of "h x seed"]
    by (simp add: py_mod_def getitem_def)
qed

lemma contains_wf:
  assumes "wf (s ! self)"
  shows "contains h self x s = Inr (\<forall>j \<in> set (positions h (s ! self) x). bf_bitarray (s ! self) ! j)"
  unfolding contains_def contains_seeds_wf [OF assms] by (simp add: positions_def)

subsection \<open>Growth of bit arrays, positions and membership\<close>

lemma bits_le_nth:
  "bits_le old new \<longleftrightarrow> length old = length new \<and> (\<forall>i < length old. old ! i \<longrightarrow> new ! i)"
  by (simp add: bits_le_def list_all2_conv_all_nth)

lemma bits_le_refl [simp]: "bits_le bits bits"
  by (simp add: bits_le_nth)

lemma bits_le_trans: "bits_le a b \<Longrightarrow> bits_le b c \<Longrightarrow> bits_le a c"
  by (simp add: bits_le_nth)

lemma bits_le_set_all: "bits_le bits (set_all js bits)"
  by (simp add: bits_le_nth nth_set_all)

lemma bits_le_map2_left: "length a = length b \<Longrightarrow> bits_le a (map2 (\<or>) a b)"
  by (simp add: bits_le_nth)

lemma bits_le_map2_right: "length a = length b \<Longrightarrow> bits_le b (map2 (\<or>) a b)"
  by (simp add: bits_le_nth)

lemma heap_le_refl [simp]: "heap_le s s"
  by (simp add: heap_le_def)

lemma heap_le_append: "heap_le s (s @ [f])"
  by (simp add: heap_le_def nth_append)

lemma heap_le_update:
  "self < length s \<Longrightarrow> bits_le (bf_bitarray (s ! self)) (bf_bitarray f) \<Longrightarrow> heap_le s (s[self := f])"
  by (simp add: heap_le_def nth_list_update)

lemma positions_lt:
  assumes "wf f" and "j \<in> set (positions h f x)"
  shows "j < length (bf_bitarray f)"
proof -
  obtain seed where j: "j = nat (h x seed mod bf_m f)"
    using assms(2) by (auto simp: positions_def)
  show ?thesis
    using mod_index [OF assms(1), of "h x seed"] unfolding j by linarith
qed

lemma holds_iff: "holds h f x \<longleftrightarrow> (\<forall>j \<in> set (positions h f x). bf_bitarray f ! j)"
  by (simp add: holds_def list_all_iff)

lemma contains_holds: "wf (s ! self) \<Longrightarrow> contains h self x s = Inr (holds h (s ! self) x)"
  by (simp add: contains_wf holds_iff)

lemma wf_inserted: "wf f \<Longrightarrow> wf (inserted h f x)"
  by (simp add: wf_def inserted_def)

lemma wf_merged: "wf f \<Longrightarrow> length (bf_bitarray g) = length (bf_bitarray f) \<Longrightarrow> wf (merged f g)"
  by (simp add: wf_def merged_def)

lemma wf_populated: "wf f \<Longrightarrow> wf (populated h f xs)"
  by (simp add: wf_def populated_def)

lemma wf_same_length:
  "wf f \<Longrightarrow> wf g \<Longrightarrow> bf_m g = bf_m f \<Longrightarrow> length (bf_bitarray g) = length (bf_bitarray f)"
  by (simp add: wf_def)

lemma positions_inserted [simp]: "positions h (inserted h' f y) = positions h f"
  by (simp add: inserted_def)

lemma positions_populated [simp]: "positions h (populated h' f ys) = positions h f"
  by (simp add: populated_def)

lemma positions_merged [simp]: "positions h (merged f g) = positions h f"
  by (simp add: merged_def)

lemma positions_cong: "bf_k g = bf_k f \<Longrightarrow> bf_m g = bf_m f \<Longrightarrow> positions h g = positions h f"
  by (rule ext) (simp add: positions_def)

lemma bits_inserted [simp]:
  "bf_bitarray (inserted h f x) = set_all (positions h f x) (bf_bitarray f)"
  by (simp add: inserted_def)

lemma bits_populated [simp]:
  "bf_bitarray (populated h f xs) = set_all (all_positions h f xs) (bf_bitarray f)"
  by (simp add: populated_def)

lemma bits_merged [simp]:
  "bf_bitarray (merged f g) = map2 (\<or>) (bf_bitarray f) (bf_bitarray g)"
  by (simp add: merged_def)

lemma holds_inserted: "wf f \<Longrightarrow> holds h (inserted h f x) x"
  by (simp add: holds_iff nth_set_all positions_lt)

lemma holds_inserted_mono: "wf f \<Longrightarrow> holds h f y \<Longrightarrow> holds h (inserted h f x) y"
  by (simp add: holds_iff nth_set_all positions_lt)

lemma set_all_positions: "set (all_positions h f xs) = (\<Union>x \<in> set xs. set (positions h f x))"
  by (simp add: all_positions_def)

lemma holds_populated: "wf f \<Longrightarrow> x \<in> set xs \<Longrightarrow> holds h (populated h f xs) x"
  by (auto simp: holds_iff nth_set_all positions_lt set_all_positions)

lemma holds_populated_mono: "wf f \<Longrightarrow> holds h f y \<Longrightarrow> holds h (populated h f xs) y"
  by (simp add: holds_iff nth_set_all positions_lt)

lemma holds_merged_left:
  "wf f \<Longrightarrow> length (bf_bitarray g) = length (bf_bitarray f) \<Longrightarrow> holds h f x \<Longrightarrow> holds h (merged f g) x"
  by (simp add: holds_iff positions_lt)

lemma holds_merged_right:
  assumes "wf f" and "wf g" and "bf_k g = bf_k f" and "bf_m g = bf_m f" and "holds h g x"
  shows "holds h (merged f g) x"
proof -
  have len: "length (bf_bitarray g) = length (bf_bitarray f)"
    using assms(1,2,4) by (rule wf_same_length)
  have pos: "positions h g = positions h f" using assms(3,4) by (rule positions_cong)
  show ?thesis
    using assms(5) len by (simp add: holds_iff pos positions_lt [OF assms(1)])
qed

subsection \<open>What a returned result tells\<close>

lemma heap_wf_append: "heap_wf (s @ [f]) \<longleftrightarrow> heap_wf s \<and> wf f"
  by (simp add: heap_wf_def)

lemma heap_wf_update: "heap_wf s \<Longrightarrow> wf f \<Longrightarrow> heap_wf (s[self := f])"
  by (auto simp: heap_wf_def list_all_iff dest: set_update_subset_insert [THEN subsetD])

lemma init_Inr:
  assumes "init h n xs epsilon k s = (Inr r, s')"
  shows "valid n epsilon \<and> r = length s \<and> s' = s @ [populated h (blank exact_arith n epsilon k) xs]"
proof (cases "valid n epsilon")
  case True
  then show ?thesis using assms by (simp add: init_valid)
next
  case False
  then have "n \<le> 0 \<or> (0 < n \<and> (epsilon \<le> 0 \<or> 1 \<le> epsilon))"
    by (auto simp: valid_def)
  then show ?thesis
    using assms by (auto simp: init_invalid_n init_invalid_epsilon)
qed

lemma add_Item_result:
  assumes "heap_wf s" and "self < length s" and "add h self (Item x) s = (res, s')"
  shows "res = Inr (length s) \<and> s' = s @ [inserted h (s ! self) x]"
  using assms add_Item_wf [of self s h x] by (simp add: heap_wf_nth)

lemma add_Filter_mismatch:
  assumes "bf_k (s ! other) \<noteq> bf_k (s ! self) \<or> bf_m (s ! other) \<noteq> bf_m (s ! self)"
  shows "\<exists>msg. add h self (Filter other) s = (Inl (InputException msg), s)"
  using assms by (auto simp: add_def)

lemma add_Filter_Inr:
  assumes "heap_wf s" and "self < length s" and "other < length s"
    and "add h self (Filter other) s = (Inr r, s')"
  shows "bf_k (s ! other) = bf_k (s ! self) \<and> bf_m (s ! other) = bf_m (s ! self)
    \<and> r = length s \<and> s' = s @ [merged (s ! self) (s ! other)]"
proof (cases "bf_k (s ! other) \<noteq> bf_k (s ! self) \<or> bf_m (s ! other) \<noteq> bf_m (s ! self)")
  case True
  then show ?thesis
    using add_Filter_mismatch [of s other self h] assms(4) by auto
next
  case False
  then have eq: "bf_k (s ! other) = bf_k (s ! self)" "bf_m (s ! other) = bf_m (s ! self)"
    by simp_all
  have "add h self (Filter other) s = (Inr (length s), s @ [merged (s ! self) (s ! other)])"
    using assms(2,3) heap_wf_nth [OF assms(1) assms(2)] heap_wf_nth [OF assms(1) assms(3)] eq
    by (rule add_Filter_wf)
  then show ?thesis using assms(4) eq by simp
qed

lemma call_Inr:
  assumes "heap_wf s" and "self < length s" and "call h self xs s = (Inr u, s')"
  shows "\<not> any (bf_bitarray (s ! self)) \<and> s' = s[self := populated h (s ! self) xs]"
proof (cases "any (bf_bitarray (s ! self))")
  case True
  then show ?thesis using assms(3) by (simp add: call_populated)
next
  case False
  then show ?thesis
    using assms(3) call_wf [OF assms(2) heap_wf_nth [OF assms(1,2)] False, of h xs] by simp
qed

subsection \<open>Invariants of the stores built by the methods\<close>

lemma reach_heap_wf: "reach h s I \<Longrightarrow> heap_wf s"
proof (induction rule: reach.induct)
  case reach_empty
  then show ?case by (simp add: heap_wf_def)
next
  case (reach_init s I n xs epsilon k r s')
  from init_Inr [OF reach_init.hyps(2)]
  have v: "valid n epsilon" and s': "s' = s @ [populated h (blank exact_arith n epsilon k) xs]" by simp_all
  show ?case
    unfolding s' heap_wf_append using reach_init.IH wf_populated [OF wf_blank [OF v]] by simp
next
  case (reach_insert s I self x r s')
  from add_Item_result [OF reach_insert.IH reach_insert.hyps(2,3)]
  have s': "s' = s @ [inserted h (s ! self) x]" by simp
  show ?case
    unfolding s' heap_wf_append
    using reach_insert.IH wf_inserted [OF heap_wf_nth [OF reach_insert.IH reach_insert.hyps(2)]]
    by simp
next
  case (reach_merge s I self other r s')
  from add_Filter_Inr [OF reach_merge.IH reach_merge.hyps(2,3,4)]
  have m: "bf_m (s ! other) = bf_m (s ! self)"
    and s': "s' = s @ [merged (s ! self) (s ! other)]" by simp_all
  have wfs: "wf (s ! self)" "wf (s ! other)"
    using heap_wf_nth [OF reach_merge.IH] reach_merge.hyps(2,3) by simp_all
  show ?case
    unfolding s' heap_wf_append
    using reach_merge.IH wf_merged [OF wfs(1) wf_same_length [OF wfs m]] by simp
next
  case (reach_call s I self xs u s')
  from call_Inr [OF reach_call.IH reach_call.hyps(2,3)]
  have s': "s' = s[self := populated h (s ! self) xs]" by simp
  show ?case
    unfolding s'
    using reach_call.IH wf_populated [OF heap_wf_nth [OF reach_call.IH reach_call.hyps(2)]]
    by (intro heap_wf_update)
qed

lemma holds_blank_populated:
  "valid n epsilon \<Longrightarrow> x \<in> set xs \<Longrightarrow> holds h (populated h (blank exact_arith n epsilon k) xs) x"
  by (intro holds_populated wf_blank)

lemma reach_holds:
  "reach h s I \<Longrightarrow> r < length s \<Longrightarrow> x \<in> I r \<Longrightarrow> holds h (s ! r) x"
proof (induction arbitrary: r x rule: reach.induct)
  case reach_empty
  then show ?case by simp
next
  case (reach_init s I n xs epsilon k r0 s')
  from init_Inr [OF reach_init.hyps(2)]
  have v: "valid n epsilon" and r0: "r0 = length s"
    and s': "s' = s @ [populated h (blank exact_arith n epsilon k) xs]" by simp_all
  show ?case
  proof (cases "r = length s")
    case True
    then show ?thesis
      using reach_init.prems(2) holds_blank_populated [OF v, of x xs h k]
      by (simp add: s' r0)
  next
    case False
    then have "r < length s" using reach_init.prems(1) by (simp add: s')
    then show ?thesis
      using reach_init.IH [of r x] reach_init.prems(2) False by (simp add: s' r0 nth_append)
  qed
next
  case (reach_insert s I self y r0 s')
  have hw: "heap_wf s" using reach_insert.hyps(1) by (rule reach_heap_wf)
  from add_Item_result [OF hw reach_insert.hyps(2,3)]
  have r0: "r0 = length s" and s': "s' = s @ [inserted h (s ! self) y]" by simp_all
  have wfs: "wf (s ! self)" using hw reach_insert.hyps(2) by (rule heap_wf_nth)
  show ?case
  proof (cases "r = length s")
    case True
    then have "x = y \<or> x \<in> I self" using reach_insert.prems(2) by (simp add: r0)
    then have "holds h (inserted h (s ! self) y) x"
      using holds_inserted [OF wfs, of h y]
        holds_inserted_mono [OF wfs reach_insert.IH [OF reach_insert.hyps(2)], of x y]
      by auto
    then show ?thesis using True by (simp add: s')
  next
    case False
    then have "r < length s" using reach_insert.prems(1) by (simp add: s')
    then show ?thesis
      using reach_insert.IH [of r x] reach_insert.prems(2) False by (simp add: s' r0 nth_append)
  qed
next
  case (reach_merge s I self other r0 s')
  have hw: "heap_wf s" using reach_merge.hyps(1) by (rule reach_heap_wf)
  from add_Filter_Inr [OF hw reach_merge.hyps(2,3,4)]
  have k: "bf_k (s ! other) = bf_k (s ! self)" and m: "bf_m (s ! other) = bf_m (s ! self)"
    and r0: "r0 = length s" and s': "s' = s @ [merged (s ! self) (s ! other)]" by simp_all
  have wfs: "wf (s ! self)" "wf (s ! other)"
    using heap_wf_nth [OF hw] reach_merge.hyps(2,3) by simp_all
  show ?case
  proof (cases "r = length s")
    case True
    then have "x \<in> I self \<or> x \<in> I other" using reach_merge.prems(2) by (simp add: r0)
    then have "holds h (s ! self) x \<or> holds h (s ! other) x"
      using reach_merge.IH [OF reach_merge.hyps(2)] reach_merge.IH [OF reach_merge.hyps(3)]
      by auto
    then have "holds h (merged (s ! self) (s ! other)) x"
      using holds_merged_left [OF wfs(1) wf_same_length [OF wfs m], of h x]
        holds_merged_right [OF wfs k m, of h x]
      by auto
    then show ?thesis using True by (simp add: s')
  next
    case False
    then have "r < length s" using reach_merge.prems(1) by (simp add: s')
    then show ?thesis
      using reach_merge.IH [of r x] reach_merge.prems(2) False by (simp add: s' r0 nth_append)
  qed
next
  case (reach_call s I self xs u s')
  have hw: "heap_wf s" using reach_call.hyps(1) by (rule reach_heap_wf)
  from call_Inr [OF hw reach_call.hyps(2,3)]
  have s': "s' = s[self := populated h (s ! self) xs]" by simp
  have wfs: "wf (s ! self)" using hw reach_call.hyps(2) by (rule heap_wf_nth)
  have r: "r < length s" using reach_call.prems(1) by (simp add: s')
  show ?case
  proof (cases "r = self")
    case True
    then have "x \<in> I self \<or> x \<in> set xs" using reach_call.prems(2) by simp
    then have "holds h (populated h (s ! self) xs) x"
      using holds_populated [OF wfs, of x xs h]
        holds_populated_mono [OF wfs reach_call.IH [OF reach_call.hyps(2)], of x xs]
      by auto
    then show ?thesis using True r by (simp add: s')
  next
    case False
    then show ?thesis
      using reach_call.IH [OF r, of x] reach_call.prems(2) by (simp add: s')
  qed
qed

lemma init_fst: "valid n epsilon \<Longrightarrow> fst (init h n xs epsilon k s) = Inr (length s)"
  by (simp add: init_valid)

lemma init_snd:
  "valid n epsilon \<Longrightarrow> snd (init h n xs epsilon k s) = s @ [populated h (blank exact_arith n epsilon k) xs]"
  by (simp add: init_valid)







lemma k_inserted [simp]: "bf_k (inserted h f x) = bf_k f"
  by (simp add: inserted_def)

lemma k_populated [simp]: "bf_k (populated h f xs) = bf_k f"
  by (simp add: populated_def)

lemma k_merged [simp]: "bf_k (merged f g) = bf_k f"
  by (simp add: merged_def)

lemma m_inserted [simp]: "bf_m (inserted h f x) = bf_m f"
  by (simp add: inserted_def)

lemma m_populated [simp]: "bf_m (populated h f xs) = bf_m f"
  by (simp add: populated_def)

lemma m_merged [simp]: "bf_m (merged f g) = bf_m f"
  by (simp add: merged_def)

lemma size_inserted [simp]: "bf_size (inserted h f x) = bf_size f + 1"
  by (simp add: inserted_def)

lemma size_populated [simp]: "bf_size (populated h f xs) = bf_size f + int (length xs)"
  by (simp add: populated_def)

lemma size_merged [simp]: "bf_size (merged f g) = bf_size f + bf_size g"
  by (simp add: merged_def)








lemma add_Filter_different_k:
  "bf_k (s ! other) \<noteq> bf_k (s ! self) \<Longrightarrow>
   add h self (Filter other) s = (Inl (InputException Different_hash_functions_cannot_be_added), s)"
  by (simp add: add_def)

lemma add_Filter_different_m:
  "bf_k (s ! other) = bf_k (s ! self) \<Longrightarrow> bf_m (s ! other) \<noteq> bf_m (s ! self) \<Longrightarrow>
   add h self (Filter other) s = (Inl (InputException Different_size_cannot_be_added), s)"
  by (simp add: add_def)

lemma init_twice_merge:
  assumes "init h n xs epsilon k s = (Inr a, s1)" and "init h n ys epsilon k s1 = (Inr b, s2)"
  shows "\<exists>r s3. add h a (Filter b) s2 = (Inr r, s3)"
proof -
  let ?f = "populated h (blank exact_arith n epsilon k) xs"
  let ?g = "populated h (blank exact_arith n epsilon k) ys"
  from init_Inr [OF assms(1)]
  have v: "valid n epsilon" and a: "a = length s" and s1: "s1 = s @ [?f]" by simp_all
  from init_Inr [OF assms(2)]
  have b: "b = Suc (length s)" and s2: "s2 = s @ [?f, ?g]" by (simp_all add: s1)
  have fa: "s2 ! a = ?f" by (simp add: a s2)
  have gb: "s2 ! b = ?g" by (simp add: b s2 nth_append)
  have la: "a < length s2" and lb: "b < length s2" by (simp_all add: a b s2)
  have wa: "wf (s2 ! a)" unfolding fa using wf_blank [OF v] by (rule wf_populated)
  have wb: "wf (s2 ! b)" unfolding gb using wf_blank [OF v] by (rule wf_populated)
  have k: "bf_k (s2 ! b) = bf_k (s2 ! a)" by (simp add: fa gb)
  have m: "bf_m (s2 ! b) = bf_m (s2 ! a)" by (simp add: fa gb)
  show ?thesis
    using add_Filter_wf [OF la lb wa wb k m, of h] by blast
qed

lemma heap_le_call:
  assumes "heap_wf s" and "self < length s" and "call h self xs s = (res, s')"
  shows "heap_le s s'"
proof (cases "any (bf_bitarray (s ! self))")
  case True
  then show ?thesis using assms(3) by (simp add: call_populated)
next
  case False
  have "s' = s[self := populated h (s ! self) xs]"
    using assms(3) call_wf [OF assms(2) heap_wf_nth [OF assms(1,2)] False, of h xs] by simp
  then show ?thesis
    using assms(2) by (simp add: heap_le_update bits_le_set_all)
qed

lemma heap_le_init:
  assumes "init h n xs epsilon k s = (res, s')"
  shows "heap_le s s'"
proof (cases "valid n epsilon")
  case True
  then show ?thesis using assms by (auto simp: init_valid heap_le_append)
next
  case False
  then have "n \<le> 0 \<or> (0 < n \<and> (epsilon \<le> 0 \<or> 1 \<le> epsilon))"
    by (auto simp: valid_def)
  then show ?thesis
    using assms by (auto simp: init_invalid_n init_invalid_epsilon)
qed

lemma heap_le_add_Item:
  assumes "heap_wf s" and "self < length s" and "add h self (Item x) s = (res, s')"
  shows "heap_le s s' \<and> (\<forall>r. res = Inr r \<longrightarrow> bits_le (show self s) (show r s'))"
proof -
  from add_Item_result [OF assms]
  have res: "res = Inr (length s)" and s': "s' = s @ [inserted h (s ! self) x]" by simp_all
  show ?thesis
    by (simp add: res s' heap_le_append show_def bits_le_set_all)
qed

lemma heap_le_add_Filter:
  assumes "heap_wf s" and "self < length s" and "other < length s"
    and "add h self (Filter other) s = (res, s')"
  shows "heap_le s s' \<and> (\<forall>r. res = Inr r \<longrightarrow>
    bits_le (show self s) (show r s') \<and> bits_le (show other s) (show r s'))"
proof (cases "bf_k (s ! other) = bf_k (s ! self) \<and> bf_m (s ! other) = bf_m (s ! self)")
  case True
  have wfs: "wf (s ! self)" "wf (s ! other)"
    using heap_wf_nth [OF assms(1)] assms(2,3) by simp_all
  have len: "length (bf_bitarray (s ! other)) = length (bf_bitarray (s ! self))"
    using wfs True by (intro wf_same_length) simp_all
  have "add h self (Filter other) s = (Inr (length s), s @ [merged (s ! self) (s ! other)])"
    using assms(2,3) wfs True by (intro add_Filter_wf) simp_all
  then have res: "res = Inr (length s)" and s': "s' = s @ [merged (s ! self) (s ! other)]"
    using assms(4) by simp_all
  show ?thesis
    using assms(3) len
    by (simp add: res s' heap_le_append show_def bits_le_map2_left bits_le_map2_right)
next
  case False
  then obtain msg where "add h self (Filter other) s = (Inl (InputException msg), s)"
    using add_Filter_mismatch [of s other self h] by blast
  then show ?thesis using assms(4) by auto
qed








subsection \<open>The examples\<close>

lemma derive_m_small: "derive_m exact_arith 1 (1 / 100) = 10"
proof -
  have "real_of_int 10 - 1 < 1 * derive_b exact_arith (1 / 100)"
    using derive_b_example_lower by simp
  moreover have "1 * derive_b exact_arith (1 / 100) \<le> real_of_int 10"
    using derive_b_example_upper by simp
  ultimately show ?thesis
    unfolding derive_m_exact by (rule ceiling_unique)
qed

lemma valid_small: "valid 1 (1 / 100)"
  by (simp add: valid_def)

lemma valid_example: "valid 1000 (1 / 100)"
  by (simp add: valid_def)

lemma example_empty_sel [simp]:
  "bf_k example_empty = 2" "bf_m example_empty = 10" "bf_size example_empty = 0"
  "bf_bitarray example_empty = replicate 10 False"
  by (simp_all add: example_empty_def derive_m_small derive_k_exact)

lemma wf_example_empty: "wf example_empty"
  unfolding example_empty_def using valid_small by (rule wf_blank)


lemma heap_wf_example_store: "heap_wf example_store"
  by (simp add: example_store_def heap_wf_def wf_example_empty wf_inserted
      wf_blank [OF valid_small])


lemma example_store_nth [simp]:
  "length example_store = 3"
  "example_store ! 0 = example_empty"
  "example_store ! 1 = inserted toy_hash example_empty ''ab''"
  "example_store ! Suc 0 = inserted toy_hash example_empty ''ab''"
  "example_store ! 2 = blank exact_arith 1 (1 / 100) 3"
  by (simp_all add: example_store_def)




lemma add_Filter_cases:
  assumes "heap_wf s" and "self < length s" and "other < length s"
  shows "((\<exists>e s'. add h self (Filter other) s = (Inl e, s'))
           \<longleftrightarrow> bf_k (s ! other) \<noteq> bf_k (s ! self) \<or> bf_m (s ! other) \<noteq> bf_m (s ! self))
    \<and> (\<forall>e s'. add h self (Filter other) s = (Inl e, s') \<longrightarrow>
          s' = s \<and> (e = InputException Different_hash_functions_cannot_be_added
                     \<or> e = InputException Different_size_cannot_be_added))
    \<and> (bf_k (s ! other) \<noteq> bf_k (s ! self) \<longrightarrow>
          add h self (Filter other) s =
            (Inl (InputException Different_hash_functions_cannot_be_added), s))
    \<and> (bf_k (s ! other) = bf_k (s ! self) \<and> bf_m (s ! other) \<noteq> bf_m (s ! self) \<longrightarrow>
          add h self (Filter other) s = (Inl (InputException Different_size_cannot_be_added), s))"
proof -
  have ok: "bf_k (s ! other) = bf_k (s ! self) \<Longrightarrow> bf_m (s ! other) = bf_m (s ! self) \<Longrightarrow>
      add h self (Filter other) s = (Inr (length s), s @ [merged (s ! self) (s ! other)])"
    using assms(2,3) heap_wf_nth [OF assms(1,2)] heap_wf_nth [OF assms(1,3)]
    by (rule add_Filter_wf)
  have 1: "(\<exists>e s'. add h self (Filter other) s = (Inl e, s'))
      \<longleftrightarrow> bf_k (s ! other) \<noteq> bf_k (s ! self) \<or> bf_m (s ! other) \<noteq> bf_m (s ! self)"
    using ok add_Filter_different_k [of s other self h] add_Filter_different_m [of s other self h]
    by (cases "bf_k (s ! other) = bf_k (s ! self)"; cases "bf_m (s ! other) = bf_m (s ! self)") auto
  have 2: "\<forall>e s'. add h self (Filter other) s = (Inl e, s') \<longrightarrow>
      s' = s \<and> (e = InputException Different_hash_functions_cannot_be_added
                 \<or> e = InputException Different_size_cannot_be_added)"
    using ok add_Filter_different_k [of s other self h] add_Filter_different_m [of s other self h]
    by (cases "bf_k (s ! other) = bf_k (s ! self)"; cases "bf_m (s ! other) = bf_m (s ! self)") auto
  have 3: "bf_k (s ! other) \<noteq> bf_k (s ! self) \<longrightarrow>
      add h self (Filter other) s =
        (Inl (InputException Different_hash_functions_cannot_be_added), s)"
    using add_Filter_different_k [of s other self h] by blast
  have 4: "bf_k (s ! other) = bf_k (s ! self) \<and> bf_m (s ! other) \<noteq> bf_m (s ! self) \<longrightarrow>
      add h self (Filter other) s = (Inl (InputException Different_size_cannot_be_added), s)"
    using add_Filter_different_m [of s other self h] by blast
  show ?thesis
    using 1 2 3 4 by blast
qed


subsection \<open>The attributes in a rounding arithmetic\<close>

lemma same_params_refl [simp]: "same_params s s"
  by (simp add: same_params_def)

lemma same_params_trans: "same_params s t \<Longrightarrow> same_params t u \<Longrightarrow> same_params s u"
  by (simp add: same_params_def)

lemma same_params_update:
  "same_params s (s[self := (s ! self)\<lparr>bf_bitarray := bits\<rparr>])"
  by (cases "self < length s") (simp_all add: same_params_def nth_list_update list_update_beyond)

lemma set_hashed_bit_params:
  "set_hashed_bit h self x seed s = (res, s') \<Longrightarrow> same_params s s'"
  by (auto simp: set_hashed_bit_def Let_def same_params_update split: sum.splits)

lemma for_seed_params:
  "for_seed h self x seeds s = (res, s') \<Longrightarrow> same_params s s'"
proof (induction seeds arbitrary: s)
  case Nil
  then show ?case by auto
next
  case (Cons seed seeds)
  obtain r1 s1 where step: "set_hashed_bit h self x seed s = (r1, s1)"
    by (cases "set_hashed_bit h self x seed s")
  have p1: "same_params s s1" using step by (rule set_hashed_bit_params)
  show ?case
  proof (cases r1)
    case (Inl e)
    then show ?thesis using Cons.prems step p1 by simp
  next
    case (Inr u)
    then have "for_seed h self x seeds s1 = (res, s')" using Cons.prems step by simp
    then have "same_params s1 s'" by (rule Cons.IH)
    with p1 show ?thesis by (rule same_params_trans)
  qed
qed

lemma for_sample_params:
  "for_sample h self xs s = (res, s') \<Longrightarrow> same_params s s'"
proof (induction xs arbitrary: s)
  case Nil
  then show ?case by auto
next
  case (Cons x xs)
  obtain r1 s1 where step: "for_seed h self x (range_py (bf_k (s ! self))) s = (r1, s1)"
    by (cases "for_seed h self x (range_py (bf_k (s ! self))) s")
  have p1: "same_params s s1" using step by (rule for_seed_params)
  show ?case
  proof (cases r1)
    case (Inl e)
    then show ?thesis using Cons.prems step p1 by simp
  next
    case (Inr u)
    then have "for_sample h self xs s1 = (res, s')" using Cons.prems step by simp
    then have "same_params s1 s'" by (rule Cons.IH)
    with p1 show ?thesis by (rule same_params_trans)
  qed
qed

lemma init_with_Inr:
  assumes "init_with fl h n xs epsilon k s = (Inr r, s')"
  shows "valid n epsilon \<and> r = length s \<and> bf_b (s' ! r) = derive_b fl epsilon
    \<and> bf_k (s' ! r) = derive_k fl epsilon k \<and> bf_m (s' ! r) = derive_m fl n epsilon"
proof -
  let ?s1 = "s @ [(blank fl n epsilon k)\<lparr>bf_size := int (length xs)\<rparr>]"
  have v: "valid n epsilon"
    using assms by (auto simp: init_with_def valid_def split: if_splits)
  then have nv: "\<not> n \<le> 0" "\<not> (epsilon \<le> 0 \<or> epsilon \<ge> 1)"
    by (auto simp: valid_def)
  obtain r1 s2 where loop: "for_sample h (length s) xs ?s1 = (r1, s2)"
    by (cases "for_sample h (length s) xs ?s1")
  have eq: "init_with fl h n xs epsilon k s =
      (case for_sample h (length s) xs ?s1 of
         (Inl e, s2) \<Rightarrow> (Inl e, s2) | (Inr u, s2) \<Rightarrow> (Inr (length s), s2))"
    using nv by (simp add: init_with_def Let_def blank_def derive_b_def derive_k_def derive_m_def)
  have r: "r = length s" and s': "s' = s2"
    using assms loop unfolding eq by (auto split: sum.splits)
  have "same_params ?s1 s2" using loop by (rule for_sample_params)
  then have "bf_b (s2 ! length s) = bf_b (?s1 ! length s)"
    "bf_k (s2 ! length s) = bf_k (?s1 ! length s)"
    "bf_m (s2 ! length s) = bf_m (?s1 ! length s)"
    by (simp_all add: same_params_def)
  then show ?thesis using v by (simp add: r s' blank_def)
qed

lemma round_pos:
  fixes r x d lo hi lo' hi' :: real
  assumes "\<bar>r - x\<bar> \<le> d * \<bar>x\<bar>" and "0 \<le> d" and "d \<le> 1 / 10000000"
    and "lo \<le> x" and "x \<le> hi" and "0 < lo"
    and "lo' \<le> lo * (9999999 / 10000000)" and "hi * (10000001 / 10000000) \<le> hi'"
  shows "lo' \<le> r \<and> r \<le> hi'"
proof -
  have x: "0 < x" using assms(4,6) by linarith
  then have ax: "\<bar>x\<bar> = x" by simp
  have "d * x \<le> 1 / 10000000 * x"
    using assms(3) x by (intro mult_right_mono) simp_all
  then have e: "\<bar>r - x\<bar> \<le> 1 / 10000000 * x" using assms(1) unfolding ax by linarith
  have l: "lo * (9999999 / 10000000) \<le> x * (9999999 / 10000000)"
    using assms(4) by (intro mult_right_mono) simp_all
  have u: "x * (10000001 / 10000000) \<le> hi * (10000001 / 10000000)"
    using assms(5) by (intro mult_right_mono) simp_all
  have "x * (9999999 / 10000000) \<le> r" using e by linarith
  moreover have "r \<le> x * (10000001 / 10000000)" using e by linarith
  ultimately show ?thesis using l u assms(7,8) by linarith
qed

lemma ln_100_bounds: "4605162 / 10 ^ 6 < ln (100::real)" "ln (100::real) < 4605188 / 10 ^ 6"
  unfolding ln_100 using ln_2_lower ln_2_upper ln_5_4_lower ln_5_4_upper by simp_all

lemma ln_near_one:
  fixes t :: real
  assumes "1 - 1 / 10 ^ 7 \<le> t" and "t \<le> 1 + 1 / 10 ^ 7"
  shows "- (2 / 10 ^ 7) \<le> ln t" and "ln t \<le> 1 / 10 ^ 7"
proof -
  have t: "0 < t" using assms(1) by simp
  have "ln t \<le> t - 1" using t by (rule ln_le_minus_one)
  then show "ln t \<le> 1 / 10 ^ 7" using assms(2) by simp
  have "ln (1 / t) \<le> 1 / t - 1" using t by (intro ln_le_minus_one) simp
  moreover have "ln (1 / t) = - ln t" using t by (simp add: ln_div)
  moreover have "1 / t \<le> 1 / (1 - 1 / 10 ^ 7)"
    using assms(1) by (intro divide_left_mono) simp_all
  ultimately show "- (2 / 10 ^ 7) \<le> ln t" by simp
qed

lemma ln_near_hundredth:
  fixes epsilon :: real
  assumes "\<bar>epsilon - 1 / 100\<bar> \<le> 1 / 10000000 / 100"
  shows "46051619 / 10 ^ 7 \<le> - ln epsilon" and "- ln epsilon \<le> 46051882 / 10 ^ 7"
proof -
  have a: "\<bar>epsilon - 1 / 100\<bar> \<le> 1 / 1000000000" using assms by simp
  have e: "0 < epsilon" using a by linarith
  have "9999999 / 10000000 \<le> 100 * epsilon" "100 * epsilon \<le> 10000001 / 10000000"
    using a by linarith+
  then have b: "1 - 1 / 10 ^ 7 \<le> 100 * epsilon" "100 * epsilon \<le> 1 + 1 / 10 ^ 7"
    by simp_all
  have "ln (100 * epsilon) = ln 100 + ln epsilon"
    using e by (intro ln_mult_pos) simp_all
  then have eq: "- ln epsilon = ln 100 - ln (100 * epsilon)" by simp
  show "46051619 / 10 ^ 7 \<le> - ln epsilon"
    unfolding eq using ln_near_one(2) [OF b] ln_100_bounds(1) by simp
  show "- ln epsilon \<le> 46051882 / 10 ^ 7"
    unfolding eq using ln_near_one(1) [OF b] ln_100_bounds(2) by simp
qed

lemma accurateD:
  assumes "accurate fl d"
  shows "0 \<le> d"
    and "0 < x \<Longrightarrow> in_range (ln x) \<Longrightarrow> \<bar>fl_log fl x - ln x\<bar> \<le> d * \<bar>ln x\<bar>"
    and "in_range (x * y) \<Longrightarrow> \<bar>fl_mul fl x y - x * y\<bar> \<le> d * \<bar>x * y\<bar>"
    and "in_range (x / y) \<Longrightarrow> \<bar>fl_div fl x y - x / y\<bar> \<le> d * \<bar>x / y\<bar>"
    and "in_range (x ^ 2) \<Longrightarrow> \<bar>fl_pow2 fl x - x ^ 2\<bar> \<le> d * \<bar>x ^ 2\<bar>"
  using assms by (simp_all add: accurate_def)

lemma in_rangeI: "1 / 1000 \<le> r \<Longrightarrow> r \<le> 1000000 \<Longrightarrow> in_range r"
  by (simp add: in_range_def)

lemma example_in_arith:
  assumes acc: "accurate fl d" and d: "d \<le> 1 / 10000000"
    and e: "\<bar>epsilon - 1 / 100\<bar> \<le> d / 100"
  shows "9585 / 1000 < derive_b fl epsilon \<and> derive_b fl epsilon < 9586 / 1000
    \<and> derive_k fl epsilon 0 = 7 \<and> derive_m fl 1000 epsilon = 9586"
proof -
  note d0 = accurateD(1) [OF acc]
  define L2 where "L2 = fl_log fl 2"
  define num where "num = - fl_log fl epsilon"
  define sq where "sq = fl_pow2 fl L2"
  define b where "b = fl_div fl num sq"
  define mm where "mm = fl_mul fl 1000 b"
  define kk where "kk = fl_mul fl b L2"
  \<comment> \<open>\<open>math.log(2)\<close>\<close>
  have ln2: "346573 / 500000 \<le> ln (2::real)" "ln (2::real) \<le> 173287 / 250000"
    using ln_2_lower ln_2_upper by simp_all
  have "in_range (ln 2)" using ln2 by (intro in_rangeI) simp_all
  then have "\<bar>L2 - ln 2\<bar> \<le> d * \<bar>ln 2\<bar>"
    unfolding L2_def by (intro accurateD(2) [OF acc]) simp_all
  then have L2: "6931459 / 10000000 \<le> L2 \<and> L2 \<le> 6931481 / 10000000"
    using d0 d ln2 by (rule round_pos) simp_all
  \<comment> \<open>\<open>- math.log(epsilon)\<close>\<close>
  have "\<bar>epsilon - 1 / 100\<bar> \<le> 1 / 10000000 / 100"
    using e d by simp
  note le = ln_near_hundredth [OF this]
  have "\<bar>epsilon - 1 / 100\<bar> \<le> 1 / 1000000000" using e d by simp
  then have ep: "0 < epsilon" by linarith
  have "in_range (ln epsilon)" using le by (simp add: in_range_def)
  then have "\<bar>fl_log fl epsilon - ln epsilon\<bar> \<le> d * \<bar>ln epsilon\<bar>"
    using ep by (intro accurateD(2) [OF acc])
  then have "\<bar>num - (- ln epsilon)\<bar> \<le> d * \<bar>- ln epsilon\<bar>"
    unfolding num_def by (simp add: abs_minus_commute)
  then have num: "46051614 / 10000000 \<le> num \<and> num \<le> 46051887 / 10000000"
    using d0 d le by (rule round_pos) simp_all
  \<comment> \<open>\<open>math.log(2) ** 2\<close>\<close>
  have L2n: "0 \<le> L2" using L2 by simp
  have sqx: "(6931459 / 10000000) ^ 2 \<le> L2 ^ 2" "L2 ^ 2 \<le> (6931481 / 10000000) ^ 2"
    using L2 L2n by (simp_all add: power_mono)
  have "in_range (L2 ^ 2)" using sqx by (intro in_rangeI) (simp_all add: power2_eq_square)
  then have "\<bar>sq - L2 ^ 2\<bar> \<le> d * \<bar>L2 ^ 2\<bar>"
    unfolding sq_def by (rule accurateD(5) [OF acc])
  then have sq: "48045119 / 100000000 \<le> sq \<and> sq \<le> 48045434 / 100000000"
    using d0 d sqx by (rule round_pos) (simp_all add: power2_eq_square)
  \<comment> \<open>the quotient \<open>b\<close>\<close>
  have sqp: "0 < sq" using sq by simp
  have "9585013 / 1000000 * sq \<le> 9585013 / 1000000 * (48045434 / 100000000)"
    using sq by (intro mult_left_mono) simp_all
  also have "\<dots> \<le> num" using num by simp
  finally have q1: "9585013 / 1000000 \<le> num / sq"
    using sqp by (simp add: pos_le_divide_eq)
  have "num \<le> 95852 / 10000 * (48045119 / 100000000)" using num by simp
  also have "\<dots> \<le> 95852 / 10000 * sq"
    using sq by (intro mult_left_mono) simp_all
  finally have q2: "num / sq \<le> 95852 / 10000"
    using sqp by (simp add: pos_divide_le_eq)
  have "in_range (num / sq)" using q1 q2 by (intro in_rangeI) linarith+
  then have "\<bar>b - num / sq\<bar> \<le> d * \<bar>num / sq\<bar>"
    unfolding b_def by (rule accurateD(4) [OF acc])
  then have b: "9585012 / 1000000 \<le> b \<and> b \<le> 958521 / 100000"
    using d0 d q1 q2 by (rule round_pos) simp_all
  \<comment> \<open>\<open>n * b\<close>\<close>
  have p: "9585012 / 1000 \<le> 1000 * b" "1000 * b \<le> 958521 / 100" using b by simp_all
  have "in_range (1000 * b)" using p by (intro in_rangeI) simp_all
  then have "\<bar>mm - 1000 * b\<bar> \<le> d * \<bar>1000 * b\<bar>"
    unfolding mm_def by (rule accurateD(3) [OF acc])
  then have mm: "9585011 / 1000 \<le> mm \<and> mm \<le> 958522 / 100"
    using d0 d p by (rule round_pos) simp_all
  \<comment> \<open>\<open>b * math.log(2)\<close>\<close>
  have "664 / 100 \<le> 9585012 / 1000000 * (6931459 / 10000000 :: real)" by simp
  also have "\<dots> \<le> b * L2" using b L2 by (intro mult_mono) simp_all
  finally have k1: "664 / 100 \<le> b * L2" .
  have "b * L2 \<le> 958521 / 100000 * (6931481 / 10000000)"
    using b L2 by (intro mult_mono) simp_all
  also have "\<dots> \<le> (665 / 100 :: real)" by simp
  finally have k2: "b * L2 \<le> 665 / 100" .
  have "in_range (b * L2)" using k1 k2 by (intro in_rangeI) simp_all
  then have "\<bar>kk - b * L2\<bar> \<le> d * \<bar>b * L2\<bar>"
    unfolding kk_def by (rule accurateD(3) [OF acc])
  then have kk: "66 / 10 \<le> kk \<and> kk \<le> 67 / 10"
    using d0 d k1 k2 by (rule round_pos) simp_all
  \<comment> \<open>the attributes\<close>
  have db: "derive_b fl epsilon = b"
    by (simp add: derive_b_def b_def num_def sq_def L2_def)
  have "real_of_int 9586 - 1 < mm" "mm \<le> real_of_int 9586" using mm by simp_all
  then have "\<lceil>mm\<rceil> = 9586" by (rule ceiling_unique)
  then have dm: "derive_m fl 1000 epsilon = 9586"
    by (simp add: derive_m_def db mm_def)
  have "real_of_int 7 - 1 < kk" "kk \<le> real_of_int 7" using kk by simp_all
  then have "\<lceil>kk\<rceil> = 7" by (rule ceiling_unique)
  then have dk: "derive_k fl epsilon 0 = 7"
    by (simp add: derive_k_def db kk_def L2_def)
  show ?thesis
    using b dm dk unfolding db by simp
qed

lemma round_to_error: "\<bar>round_to x - x\<bar> \<le> 1 / 2 ^ 41"
proof -
  define z where "z = real_of_int \<lfloor>x * 1099511627776 + 1 / 2\<rfloor>"
  have "z \<le> x * 1099511627776 + 1 / 2" "x * 1099511627776 + 1 / 2 < z + 1"
    unfolding z_def by linarith+
  then have "\<bar>z / 1099511627776 - x\<bar> \<le> 1 / 2199023255552" by linarith
  moreover have "round_to x = z / 1099511627776" by (simp add: round_to_def z_def)
  moreover have "(1 :: real) / 2 ^ 41 = 1 / 2199023255552" by simp
  ultimately show ?thesis by (simp only:)
qed

lemma round_to_accurate:
  assumes "in_range r"
  shows "\<bar>round_to r - r\<bar> \<le> 1 / 1000000000 * \<bar>r\<bar>"
proof -
  have "\<bar>round_to r - r\<bar> \<le> 1 / 2 ^ 41" by (rule round_to_error)
  also have "\<dots> \<le> 1 / 1000000000 * (1 / 1000 :: real)" by simp
  also have "\<dots> \<le> 1 / 1000000000 * \<bar>r\<bar>"
    using assms by (intro mult_left_mono) (simp_all add: in_range_def)
  finally show ?thesis .
qed

lemma accurate_rounding_arith: "accurate rounding_arith (1 / 1000000000)"
proof -
  have sel: "fl_log rounding_arith = (\<lambda>x. round_to (ln x))"
    "fl_mul rounding_arith = (\<lambda>x y. round_to (x * y))"
    "fl_div rounding_arith = (\<lambda>x y. round_to (x / y))"
    "fl_pow2 rounding_arith = (\<lambda>x. round_to (x ^ 2))"
    by (simp_all add: rounding_arith_def)
  have z: "(0::real) \<le> 1 / 1000000000" by simp
  show ?thesis
    unfolding accurate_def sel using z round_to_accurate by blast
qed

lemma double_hundredth_near: "\<bar>double_hundredth - 1 / 100\<bar> \<le> 1 / 1000000000 / 100"
  by (simp add: double_hundredth_def)

lemma valid_double_hundredth: "valid 1000 double_hundredth"
  by (simp add: valid_def double_hundredth_def)

lemma init_with_no_samples:
  "valid n epsilon \<Longrightarrow>
   init_with fl h n [] epsilon k s = (Inr (length s), s @ [blank fl n epsilon k])"
  by (simp add: init_with_def valid_def Let_def blank_def derive_b_def derive_k_def derive_m_def)

section \<open>The claims\<close>

text \<open>
  C1 (no false negatives). \<open>reach h s I\<close> says that the store \<open>s\<close> was built from the empty
  store by successful constructions, insertions, merges and bulk populations, and that
  \<open>I r\<close> is the set of items that went into the filter at \<open>r\<close> on the way: its
  construction-time samples, the items added to it by \<^verbatim>\<open>+\<close> or by \<^verbatim>\<open>__call__\<close>, and
  the items of both operands of a merge. Every such item is reported as contained,
  whatever the hash function, the capacity, the error rate and the hash count are.
\<close>

theorem no_false_negatives:
  assumes "reach h s I" and "self < length s" and "x \<in> I self"
  shows "contains h self x s = Inr True"
proof -
  have "wf (s ! self)"
    using reach_heap_wf [OF assms(1)] assms(2) by (rule heap_wf_nth)
  then have "contains h self x s = Inr (holds h (s ! self) x)"
    by (rule contains_holds)
  then show ?thesis
    using reach_holds [OF assms] by simp
qed

text \<open>A store that is reached, with one filter built from one sample.\<close>

theorem no_false_negatives_witness:
  "reach toy_hash (snd (init toy_hash 1 [''ab''] (1 / 100) 2 [])) ((\<lambda>r. {})(0 := set [''ab'']))
   \<and> 0 < length (snd (init toy_hash 1 [''ab''] (1 / 100) 2 []))
   \<and> ''ab'' \<in> ((\<lambda>r. {})(0 := set [''ab''])) 0
   \<and> contains toy_hash 0 ''ab'' (snd (init toy_hash 1 [''ab''] (1 / 100) 2 [])) = Inr True"
proof -
  let ?s = "snd (init toy_hash 1 [''ab''] (1 / 100) 2 [])"
  let ?I = "(\<lambda>r. {})(0 := set [''ab''])"
  have "init toy_hash 1 [''ab''] (1 / 100) 2 [] = (Inr 0, ?s)"
    using init_fst [OF valid_small, of toy_hash "[''ab'']" 2 "[]"]
    by (simp add: prod_eq_iff)
  then have r: "reach toy_hash ?s ?I"
    by (rule reach_init [OF reach_empty])
  have l: "0 < length ?s" by (simp add: init_snd [OF valid_small])
  have m: "''ab'' \<in> ?I 0" by simp
  show ?thesis
    using r l m no_false_negatives [OF r l m] by simp
qed

text \<open>
  C2 (parameter derivation), amended. A construction that succeeds without a hash-count
  override leaves \<open>b = - log \<epsilon> / (log 2) ** 2\<close>, \<open>k = \<lceil>b * log 2\<rceil>\<close> and \<open>m = \<lceil>n * b\<rceil>\<close>, each
  operation being that of the floats: functions of \<open>n\<close> and \<open>\<epsilon>\<close> alone. Whenever these
  operations have a relative error of at most \<open>10\<^sup>-\<^sup>7\<close> (those of doubles have one below
  \<open>10\<^sup>-\<^sup>1\<^sup>5\<close>), \<open>n\<close> is 1000 and \<open>\<epsilon>\<close> is within that error of 0.01, this gives
  \<open>9.585 < b < 9.586\<close>, \<open>k = 7\<close> and \<open>m = 9586\<close>: since \<open>1000 * b\<close> is about \<open>9585.06\<close>, its
  ceiling is \<open>9586\<close>, not \<open>9585\<close>.
\<close>

theorem parameter_derivation:
  assumes "init_with fl h n xs epsilon 0 s = (Inr r, s')"
  shows "bf_b (s' ! r) = fl_div fl (- fl_log fl epsilon) (fl_pow2 fl (fl_log fl 2))
    \<and> bf_k (s' ! r) = \<lceil>fl_mul fl (bf_b (s' ! r)) (fl_log fl 2)\<rceil>
    \<and> bf_m (s' ! r) = \<lceil>fl_mul fl n (bf_b (s' ! r))\<rceil>
    \<and> (accurate fl d \<and> d \<le> 1 / 10000000 \<and> n = 1000 \<and> \<bar>epsilon - 1 / 100\<bar> \<le> d / 100 \<longrightarrow>
         9585 / 1000 < bf_b (s' ! r) \<and> bf_b (s' ! r) < 9586 / 1000
         \<and> bf_k (s' ! r) = 7 \<and> bf_m (s' ! r) = 9586)"
proof -
  from init_with_Inr [OF assms]
  have b: "bf_b (s' ! r) = derive_b fl epsilon"
    and k: "bf_k (s' ! r) = derive_k fl epsilon 0"
    and m: "bf_m (s' ! r) = derive_m fl n epsilon"
    by blast+
  have gen: "derive_b fl epsilon = fl_div fl (- fl_log fl epsilon) (fl_pow2 fl (fl_log fl 2))
      \<and> derive_k fl epsilon 0 = \<lceil>fl_mul fl (derive_b fl epsilon) (fl_log fl 2)\<rceil>
      \<and> derive_m fl n epsilon = \<lceil>fl_mul fl n (derive_b fl epsilon)\<rceil>"
    by (simp add: derive_b_def derive_k_def derive_m_def)
  have ex: "accurate fl d \<and> d \<le> 1 / 10000000 \<and> n = 1000 \<and> \<bar>epsilon - 1 / 100\<bar> \<le> d / 100 \<longrightarrow>
      9585 / 1000 < derive_b fl epsilon \<and> derive_b fl epsilon < 9586 / 1000
      \<and> derive_k fl epsilon 0 = 7 \<and> derive_m fl n epsilon = 9586"
  proof
    assume a: "accurate fl d \<and> d \<le> 1 / 10000000 \<and> n = 1000 \<and> \<bar>epsilon - 1 / 100\<bar> \<le> d / 100"
    then have n: "n = 1000" by simp
    show "9585 / 1000 < derive_b fl epsilon \<and> derive_b fl epsilon < 9586 / 1000
      \<and> derive_k fl epsilon 0 = 7 \<and> derive_m fl n epsilon = 9586"
      unfolding n using a by (intro example_in_arith [of fl d epsilon]) simp_all
  qed
  show ?thesis
    unfolding b k m using gen ex by blast
qed

text \<open>
  An arithmetic that rounds every result to 40 binary places, the double nearest to 0.01,
  and no samples.
\<close>

theorem parameter_derivation_witness:
  "init_with rounding_arith toy_hash 1000 [] double_hundredth 0 [] =
     (Inr 0, [blank rounding_arith 1000 double_hundredth 0])
   \<and> accurate rounding_arith (1 / 1000000000) \<and> (1 / 1000000000 :: real) \<le> 1 / 10000000
   \<and> \<bar>double_hundredth - 1 / 100\<bar> \<le> 1 / 1000000000 / 100
   \<and> bf_k ([blank rounding_arith 1000 double_hundredth 0] ! 0) = 7
   \<and> bf_m ([blank rounding_arith 1000 double_hundredth 0] ! 0) = 9586"
proof -
  have i: "init_with rounding_arith toy_hash 1000 [] double_hundredth 0 [] =
     (Inr 0, [blank rounding_arith 1000 double_hundredth 0])"
    using init_with_no_samples [OF valid_double_hundredth, of rounding_arith toy_hash 0 "[]"]
    by simp
  have d: "(1 / 1000000000 :: real) \<le> 1 / 10000000" by simp
  show ?thesis
    using i d accurate_rounding_arith double_hundredth_near
      parameter_derivation [OF i, of "1 / 1000000000"]
    by blast
qed

text \<open>
  C2 as stated fails: the bit length of the filter constructed with \<open>n = 1000\<close> and
  \<open>\<epsilon> = 0.01\<close> is \<open>9586\<close>, without rounding as well as with it.
\<close>

theorem example_bit_length_counterexample:
  "fst (init toy_hash 1000 [] (1 / 100) 0 []) = Inr 0
   \<and> bf_m (snd (init toy_hash 1000 [] (1 / 100) 0 []) ! 0) = 9586
   \<and> bf_m (snd (init toy_hash 1000 [] (1 / 100) 0 []) ! 0) \<noteq> 9585
   \<and> fst (init_with rounding_arith toy_hash 1000 [] double_hundredth 0 []) = Inr 0
   \<and> bf_m (snd (init_with rounding_arith toy_hash 1000 [] double_hundredth 0 []) ! 0) = 9586
   \<and> bf_m (snd (init_with rounding_arith toy_hash 1000 [] double_hundredth 0 []) ! 0) \<noteq> 9585"
proof -
  have 1: "fst (init toy_hash 1000 [] (1 / 100) 0 []) = Inr 0
     \<and> bf_m (snd (init toy_hash 1000 [] (1 / 100) 0 []) ! 0) = 9586
     \<and> bf_m (snd (init toy_hash 1000 [] (1 / 100) 0 []) ! 0) \<noteq> 9585"
    by (simp add: init_valid [OF valid_example] populated_def derive_m_example)
  have d: "(1 / 1000000000 :: real) \<le> 1 / 10000000" by simp
  have "derive_m rounding_arith 1000 double_hundredth = 9586"
    using example_in_arith [OF accurate_rounding_arith d double_hundredth_near] by simp
  then have 2: "fst (init_with rounding_arith toy_hash 1000 [] double_hundredth 0 []) = Inr 0
     \<and> bf_m (snd (init_with rounding_arith toy_hash 1000 [] double_hundredth 0 []) ! 0) = 9586
     \<and> bf_m (snd (init_with rounding_arith toy_hash 1000 [] double_hundredth 0 []) ! 0) \<noteq> 9585"
    by (simp add: init_with_no_samples [OF valid_double_hundredth] blank_def)
  show ?thesis using 1 2 by blast
qed




text \<open>
  C4 (merge). For two filters of a well-formed store with the same hash count and the
  same bit length, \<^verbatim>\<open>self + other\<close> returns a new object and leaves the old ones as they
  were; its bit array is the position-wise OR of those of the operands, its size the sum
  of their sizes, and it contains every item that either operand contains, so every item
  inserted into either.
\<close>

theorem merge_correct:
  assumes "heap_wf s" and "self < length s" and "other < length s"
    and "bf_k (s ! other) = bf_k (s ! self)" and "bf_m (s ! other) = bf_m (s ! self)"
  shows "\<exists>r s'. add h self (Filter other) s = (Inr r, s')
      \<and> r = length s \<and> length s' = Suc (length s) \<and> (\<forall>q < length s. s' ! q = s ! q)
      \<and> length (show r s') = length (show self s)
      \<and> (\<forall>i < length (show self s). show r s' ! i \<longleftrightarrow> show self s ! i \<or> show other s ! i)
      \<and> len r s' = len self s + len other s
      \<and> bf_k (s' ! r) = bf_k (s ! self) \<and> bf_m (s' ! r) = bf_m (s ! self)
      \<and> (\<forall>x. contains h self x s = Inr True \<or> contains h other x s = Inr True
             \<longrightarrow> contains h r x s' = Inr True)"
proof -
  let ?f = "s ! self" and ?g = "s ! other"
  let ?s' = "s @ [merged ?f ?g]"
  have wfs: "wf ?f" "wf ?g" using heap_wf_nth [OF assms(1)] assms(2,3) by simp_all
  have len: "length (bf_bitarray ?g) = length (bf_bitarray ?f)"
    using wfs assms(5) by (rule wf_same_length)
  have wfm: "wf (merged ?f ?g)" using wfs(1) len by (rule wf_merged)
  have a: "add h self (Filter other) s = (Inr (length s), ?s')"
    using assms(2,3) wfs assms(4,5) by (rule add_Filter_wf)
  have at: "?s' ! length s = merged ?f ?g" by simp
  have 1: "length ?s' = Suc (length s)" by simp
  have 2: "\<forall>q < length s. ?s' ! q = s ! q" by (simp add: nth_append)
  have 3: "length (show (length s) ?s') = length (show self s)"
    by (simp add: show_def len)
  have 4: "\<forall>i < length (show self s).
      show (length s) ?s' ! i \<longleftrightarrow> show self s ! i \<or> show other s ! i"
    by (simp add: show_def len)
  have 5: "len (length s) ?s' = len self s + len other s" by (simp add: len_def)
  have 6: "bf_k (?s' ! length s) = bf_k ?f \<and> bf_m (?s' ! length s) = bf_m ?f" by simp
  have 7: "\<forall>x. contains h self x s = Inr True \<or> contains h other x s = Inr True
      \<longrightarrow> contains h (length s) x ?s' = Inr True"
  proof (intro allI impI)
    fix x assume "contains h self x s = Inr True \<or> contains h other x s = Inr True"
    then have "holds h ?f x \<or> holds h ?g x"
      by (simp add: contains_holds wfs)
    then have "holds h (merged ?f ?g) x"
      using holds_merged_left [OF wfs(1) len, of h x]
        holds_merged_right [OF wfs assms(4,5), of h x]
      by blast
    moreover have "wf (?s' ! length s)" using wfm by simp
    then have "contains h (length s) x ?s' = Inr (holds h (?s' ! length s) x)"
      by (rule contains_holds)
    ultimately show "contains h (length s) x ?s' = Inr True" by simp
  qed
  show ?thesis
    using a 1 2 3 4 5 6 7 by blast
qed

text \<open>Merging the filter that holds \<open>''ab''\<close> with the empty one of the same shape.\<close>

theorem merge_correct_witness:
  "heap_wf example_store \<and> 1 < length example_store \<and> 0 < length example_store
   \<and> bf_k (example_store ! 0) = bf_k (example_store ! 1)
   \<and> bf_m (example_store ! 0) = bf_m (example_store ! 1)
   \<and> contains toy_hash 1 ''ab'' example_store = Inr True
   \<and> fst (add toy_hash 1 (Filter 0) example_store) = Inr 3
   \<and> len 3 (snd (add toy_hash 1 (Filter 0) example_store)) = 1
   \<and> contains toy_hash 3 ''ab'' (snd (add toy_hash 1 (Filter 0) example_store)) = Inr True"
proof -
  have l: "1 < length example_store" "0 < length example_store" by simp_all
  have k: "bf_k (example_store ! 0) = bf_k (example_store ! 1)" by simp
  have m: "bf_m (example_store ! 0) = bf_m (example_store ! 1)" by simp
  have "wf (example_store ! 1)" using heap_wf_example_store l(1) by (rule heap_wf_nth)
  then have c: "contains toy_hash 1 ''ab'' example_store = Inr True"
    using holds_inserted [OF wf_example_empty, of toy_hash "''ab''"]
    by (simp add: contains_holds)
  have sz: "len 1 example_store + len 0 example_store = 1" by (simp add: len_def)
  from merge_correct [OF heap_wf_example_store l k m, of toy_hash]
  obtain r s' where a: "add toy_hash 1 (Filter 0) example_store = (Inr r, s')"
    and r: "r = length example_store"
    and sum: "len r s' = len 1 example_store + len 0 example_store"
    and sub: "\<forall>x. contains toy_hash 1 x example_store = Inr True
        \<or> contains toy_hash 0 x example_store = Inr True \<longrightarrow> contains toy_hash r x s' = Inr True"
    by blast
  have r3: "r = 3" using r by simp
  have "contains toy_hash r ''ab'' s' = Inr True" using sub c by blast
  then show ?thesis
    using heap_wf_example_store l k m c a sum sz by (simp add: r3)
qed

text \<open>
  C5 (merge compatibility). On a well-formed store \<^verbatim>\<open>self + other\<close> with a filter
  \<open>other\<close> raises exactly when the hash counts or the bit lengths differ; it then raises the
  \<^verbatim>\<open>InputException\<close> of the first check that fails and leaves the whole store as it was.
  Two filters constructed one after the other with the same capacity, error rate and
  hash-count argument can always be merged.
\<close>

theorem merge_compatibility:
  assumes "heap_wf s"
  shows "(self < length s \<and> other < length s \<longrightarrow>
      ((\<exists>e s'. add h self (Filter other) s = (Inl e, s'))
           \<longleftrightarrow> bf_k (s ! other) \<noteq> bf_k (s ! self) \<or> bf_m (s ! other) \<noteq> bf_m (s ! self))
    \<and> (\<forall>e s'. add h self (Filter other) s = (Inl e, s') \<longrightarrow>
          s' = s \<and> (e = InputException Different_hash_functions_cannot_be_added
                     \<or> e = InputException Different_size_cannot_be_added))
    \<and> (bf_k (s ! other) \<noteq> bf_k (s ! self) \<longrightarrow>
          add h self (Filter other) s =
            (Inl (InputException Different_hash_functions_cannot_be_added), s))
    \<and> (bf_k (s ! other) = bf_k (s ! self) \<and> bf_m (s ! other) \<noteq> bf_m (s ! self) \<longrightarrow>
          add h self (Filter other) s = (Inl (InputException Different_size_cannot_be_added), s)))
    \<and> (\<forall>n xs ys epsilon k a b s1 s2.
          init h n xs epsilon k s = (Inr a, s1) \<and> init h n ys epsilon k s1 = (Inr b, s2)
          \<longrightarrow> (\<exists>r s3. add h a (Filter b) s2 = (Inr r, s3)))"
    (is "(_ \<longrightarrow> ?checks) \<and> ?same")
proof (rule conjI)
  show "self < length s \<and> other < length s \<longrightarrow> ?checks"
    by (intro impI, elim conjE) (rule add_Filter_cases [OF assms])
  show ?same
    using init_twice_merge [of h] by blast
qed

text \<open>The empty filters with two and with three hash functions cannot be merged.\<close>

theorem merge_compatibility_witness:
  "heap_wf example_store \<and> 0 < length example_store \<and> 2 < length example_store
   \<and> bf_k (example_store ! 2) \<noteq> bf_k (example_store ! 0)
   \<and> add toy_hash 0 (Filter 2) example_store =
       (Inl (InputException Different_hash_functions_cannot_be_added), example_store)"
proof -
  have l: "0 < length example_store" "2 < length example_store" by simp_all
  have k: "bf_k (example_store ! 2) \<noteq> bf_k (example_store ! 0)" by (simp add: derive_k_exact)
  show ?thesis
    using heap_wf_example_store l k
      merge_compatibility [OF heap_wf_example_store, of 0 2 toy_hash]
    by blast
qed

text \<open>
  C6 (insert is non-mutating). \<^verbatim>\<open>original + x\<close> for an item \<open>x\<close> returns a new object;
  every object that was in the store, the original among them, is unchanged, so its size
  and its bits are. The derived filter has the bits of the original and those at the
  \<open>k\<close> hashed positions of \<open>x\<close>, one more element, and contains \<open>x\<close>.
\<close>

theorem insert_non_mutating:
  assumes "heap_wf s" and "original < length s"
  shows "\<exists>derived s'. add h original (Item x) s = (Inr derived, s')
      \<and> derived = length s \<and> length s' = Suc (length s)
      \<and> (\<forall>q < length s. s' ! q = s ! q)
      \<and> len original s' = len original s \<and> show original s' = show original s
      \<and> len derived s' = len original s + 1
      \<and> length (show derived s') = length (show original s)
      \<and> (\<forall>seed \<in> set (range_py (bf_k (s ! original))).
            show derived s' ! nat (h x seed mod bf_m (s ! original)))
      \<and> (\<forall>j < length (show original s).
            show derived s' ! j \<longleftrightarrow> show original s ! j \<or> j \<in> set (positions h (s ! original) x))
      \<and> contains h derived x s' = Inr True"
proof -
  let ?f = "s ! original"
  let ?s' = "s @ [inserted h ?f x]"
  have wff: "wf ?f" using assms by (rule heap_wf_nth)
  have a: "add h original (Item x) s = (Inr (length s), ?s')"
    using assms(2) wff by (rule add_Item_wf)
  have at: "?s' ! length s = inserted h ?f x" by simp
  have old: "?s' ! original = ?f" using assms(2) by (simp add: nth_append)
  have 1: "length ?s' = Suc (length s)" by simp
  have 2: "\<forall>q < length s. ?s' ! q = s ! q" by (simp add: nth_append)
  have 3: "len original ?s' = len original s \<and> show original ?s' = show original s"
    by (simp only: len_def show_def old)
  have 4: "len (length s) ?s' = len original s + 1" by (simp add: len_def)
  have 5: "length (show (length s) ?s') = length (show original s)" by (simp add: show_def)
  have 6: "\<forall>seed \<in> set (range_py (bf_k ?f)). show (length s) ?s' ! nat (h x seed mod bf_m ?f)"
  proof
    fix seed assume "seed \<in> set (range_py (bf_k ?f))"
    then have mem: "nat (h x seed mod bf_m ?f) \<in> set (positions h ?f x)"
      by (simp add: positions_def)
    then have "nat (h x seed mod bf_m ?f) < length (bf_bitarray ?f)"
      using wff by (intro positions_lt)
    then show "show (length s) ?s' ! nat (h x seed mod bf_m ?f)"
      using mem by (simp add: show_def nth_set_all)
  qed
  have 7: "\<forall>j < length (show original s).
      show (length s) ?s' ! j \<longleftrightarrow> show original s ! j \<or> j \<in> set (positions h ?f x)"
    by (simp add: show_def nth_set_all)
  have "wf (?s' ! length s)" using wf_inserted [OF wff] by simp
  then have "contains h (length s) x ?s' = Inr (holds h (?s' ! length s) x)"
    by (rule contains_holds)
  then have 8: "contains h (length s) x ?s' = Inr True"
    using holds_inserted [OF wff, of h x] by simp
  show ?thesis
    using a 1 2 3 4 5 6 7 8 by blast
qed

text \<open>Adding \<open>''c''\<close> to the filter that holds \<open>''ab''\<close>.\<close>

theorem insert_non_mutating_witness:
  "heap_wf example_store \<and> 1 < length example_store
   \<and> fst (add toy_hash 1 (Item ''c'') example_store) = Inr 3
   \<and> len 1 (snd (add toy_hash 1 (Item ''c'') example_store)) = 1
   \<and> show 1 (snd (add toy_hash 1 (Item ''c'') example_store)) = show 1 example_store
   \<and> len 3 (snd (add toy_hash 1 (Item ''c'') example_store)) = 2
   \<and> contains toy_hash 3 ''c'' (snd (add toy_hash 1 (Item ''c'') example_store)) = Inr True"
proof -
  have l: "1 < length example_store" by simp
  have sz: "len 1 example_store = 1" by (simp add: len_def)
  from insert_non_mutating [OF heap_wf_example_store l, of toy_hash "''c''"]
  obtain r s' where a: "add toy_hash 1 (Item ''c'') example_store = (Inr r, s')"
    and r: "r = length example_store"
    and f: "len 1 s' = len 1 example_store" "show 1 s' = show 1 example_store"
    and n: "len r s' = len 1 example_store + 1"
    and c: "contains toy_hash r ''c'' s' = Inr True"
    by blast
  have r3: "r = 3" using r by simp
  show ?thesis
    using heap_wf_example_store l a f n c sz by (simp add: r3)
qed

text \<open>
  C7 (bits only grow). \<open>heap_le s s'\<close> says that every object of \<open>s\<close> is still in \<open>s'\<close>,
  with a bit array of the same length in which every bit that was set is set. It holds
  across a construction, an insertion, a bulk population and a merge, whether they return
  or raise; the filter an insertion returns has every bit of the original set, and the
  filter a merge returns every bit of either operand.
\<close>

theorem bits_only_grow:
  assumes "heap_wf s"
  shows "(\<forall>n xs epsilon k res s'. init h n xs epsilon k s = (res, s') \<longrightarrow> heap_le s s')
    \<and> (\<forall>self x res s'. self < length s \<and> add h self (Item x) s = (res, s') \<longrightarrow>
          heap_le s s' \<and> (\<forall>r. res = Inr r \<longrightarrow> bits_le (show self s) (show r s')))
    \<and> (\<forall>self xs res s'. self < length s \<and> call h self xs s = (res, s') \<longrightarrow> heap_le s s')
    \<and> (\<forall>self other res s'.
          self < length s \<and> other < length s \<and> add h self (Filter other) s = (res, s') \<longrightarrow>
          heap_le s s' \<and> (\<forall>r. res = Inr r \<longrightarrow>
            bits_le (show self s) (show r s') \<and> bits_le (show other s) (show r s')))"
proof (intro conjI allI impI)
  fix n xs epsilon k res s'
  assume "init h n xs epsilon k s = (res, s')"
  then show "heap_le s s'" by (rule heap_le_init)
next
  fix self x res s'
  assume "self < length s \<and> add h self (Item x) s = (res, s')"
  then show "heap_le s s'" using heap_le_add_Item [OF assms, of self h x res s'] by blast
next
  fix self x res s' r
  assume "self < length s \<and> add h self (Item x) s = (res, s')" and "res = Inr r"
  then show "bits_le (show self s) (show r s')"
    using heap_le_add_Item [OF assms, of self h x res s'] by blast
next
  fix self xs res s'
  assume "self < length s \<and> call h self xs s = (res, s')"
  then show "heap_le s s'" using heap_le_call [OF assms, of self h xs res s'] by blast
next
  fix self other res s'
  assume "self < length s \<and> other < length s \<and> add h self (Filter other) s = (res, s')"
  then show "heap_le s s'"
    using heap_le_add_Filter [OF assms, of self other h res s'] by blast
next
  fix self other res s' r
  assume "self < length s \<and> other < length s \<and> add h self (Filter other) s = (res, s')"
    and "res = Inr r"
  then show "bits_le (show self s) (show r s')"
    using heap_le_add_Filter [OF assms, of self other h res s'] by blast
next
  fix self other res s' r
  assume "self < length s \<and> other < length s \<and> add h self (Filter other) s = (res, s')"
    and "res = Inr r"
  then show "bits_le (show other s) (show r s')"
    using heap_le_add_Filter [OF assms, of self other h res s'] by blast
qed

text \<open>A bulk population, an insertion, a merge and a construction on the example store.\<close>

theorem bits_only_grow_witness:
  "heap_wf example_store \<and> 0 < length example_store \<and> 1 < length example_store
   \<and> heap_le example_store (snd (init toy_hash 1 [''c''] (1 / 100) 0 example_store))
   \<and> heap_le example_store (snd (add toy_hash 0 (Item ''c'') example_store))
   \<and> heap_le example_store (snd (call toy_hash 0 [''c''] example_store))
   \<and> heap_le example_store (snd (add toy_hash 0 (Filter 1) example_store))"
proof -
  have l: "0 < length example_store" "1 < length example_store" by simp_all
  note g = bits_only_grow [OF heap_wf_example_store, of toy_hash]
  have 1: "heap_le example_store (snd (init toy_hash 1 [''c''] (1 / 100) 0 example_store))"
    using g surjective_pairing [of "init toy_hash 1 [''c''] (1 / 100) 0 example_store"] by blast
  have 2: "heap_le example_store (snd (add toy_hash 0 (Item ''c'') example_store))"
    using g l surjective_pairing [of "add toy_hash 0 (Item ''c'') example_store"] by blast
  have 3: "heap_le example_store (snd (call toy_hash 0 [''c''] example_store))"
    using g l surjective_pairing [of "call toy_hash 0 [''c''] example_store"] by blast
  have 4: "heap_le example_store (snd (add toy_hash 0 (Filter 1) example_store))"
    using g l surjective_pairing [of "add toy_hash 0 (Filter 1) example_store"] by blast
  show ?thesis
    using heap_wf_example_store l 1 2 3 4 by blast
qed

text \<open>
  C8 (actual error rate). \<^verbatim>\<open>actual_epsilon\<close> never raises: it is \<open>0\<close> when the element
  count is \<open>0\<close>, and otherwise \<open>0.5\<close> to the power \<open>(m / size) \<sqdot> ln 2\<close>.
\<close>

theorem actual_error_rate:
  "(len self s = 0 \<longrightarrow> actual_epsilon self s = Inr 0)
   \<and> (len self s \<noteq> 0 \<longrightarrow>
        actual_epsilon self s =
          Inr ((1 / 2) powr (real_of_int (bf_m (s ! self)) / real_of_int (len self s) * ln 2)))"
  by (simp add: actual_epsilon_def len_def py_truediv_def)

text \<open>The empty filter of the example store and the one with one element.\<close>

theorem actual_error_rate_witness:
  "len 0 example_store = 0 \<and> actual_epsilon 0 example_store = Inr 0
   \<and> len 1 example_store \<noteq> 0
   \<and> actual_epsilon 1 example_store = Inr ((1 / 2) powr (10 * ln 2))"
proof -
  have l: "len 0 example_store = 0" "len (Suc 0) example_store = 1" by (simp_all add: len_def)
  have m: "bf_m (example_store ! Suc 0) = 10" by simp
  show ?thesis
    using actual_error_rate [of 0 example_store] actual_error_rate [of 1 example_store]
    by (simp add: l m)
qed





end
